theory Spec2Isabelle
  imports
    Main
    "HOL-Library.Char_ord"
    "HOL-Library.List_Lexorder"
    "HOL-Library.Sublist"
    "HOL-Library.Word"
    "HOL-Library.AList"
begin

unbundle bit_operations_syntax

section \<open>The OTA manifest builder (tools/build\_ota\_manifest.py)\<close>

text \<open>
  A shallow embedding of \<^verbatim>\<open>src/tools/build_ota_manifest.py\<close>.

  Conventions of the model.
  \<^item> A Python \<^verbatim>\<open>str\<close> is a \<^typ>\<open>string\<close> whose characters are the code points below 256
    (Latin-1); the character classes used by \<^verbatim>\<open>str.strip\<close>, \<^verbatim>\<open>str.lower\<close> and
    \<^verbatim>\<open>int\<close> are the ones CPython has on that range. File contents are byte sequences,
    also written as \<^typ>\<open>string\<close>.
  \<^item> Python integers are \<^typ>\<open>int\<close>; the conversions between integers and decimal text
    have the interpreter's limit on the number of digits.
  \<^item> An exception is a value of \<open>py_error\<close>; a function that may raise returns
    \<open>py_error + 'a\<close> with \<open>Inl\<close> for the exception.
  \<^item> The file system is an explicit state, passed in and returned. What is printed
    to the console is not modelled.
  \<^item> The functions of the standard library whose answers depend on more than the model
    holds are parameters: the JSON parser, the parser of the command line, and the
    errors of \<^verbatim>\<open>os.stat\<close> that the entries of the file system do not explain.
\<close>

subsection \<open>Exceptions\<close>

text \<open>\<^verbatim>\<open>SystemExit\<close> carries the exit status of the process.\<close>

datatype py_error =
    FileNotFoundError
  | NotADirectoryError
  | IsADirectoryError
  | FileExistsError
  | PermissionError
  | SameFileError
  | OSError
  | ValueError
  | IndexError
  | SystemExit int

subsection \<open>Strings\<close>

definition code :: "char \<Rightarrow> nat" where
  "code c = of_char c"

text \<open>\<^verbatim>\<open>str.isspace\<close> on one character, as used by \<^verbatim>\<open>str.strip()\<close>.\<close>

definition py_isspace :: "char \<Rightarrow> bool" where
  "py_isspace c = ((9 \<le> code c \<and> code c \<le> 13) \<or> (28 \<le> code c \<and> code c \<le> 32)
                    \<or> code c = 133 \<or> code c = 160)"

definition strip :: "string \<Rightarrow> string" where
  "strip s = rev (dropWhile py_isspace (rev (dropWhile py_isspace s)))"

text \<open>\<^verbatim>\<open>s.rstrip('/')\<close>.\<close>

definition rstrip_slash :: "string \<Rightarrow> string" where
  "rstrip_slash s = rev (dropWhile (\<lambda>c. c = CHR ''/'') (rev s))"

text \<open>\<^verbatim>\<open>s.split(sep)\<close> for a separator of one character: never the empty list.\<close>

fun split_on :: "char \<Rightarrow> string \<Rightarrow> string list" where
  "split_on sep [] = [[]]"
| "split_on sep (c # cs) =
     (if c = sep then [] # split_on sep cs
      else (case split_on sep cs of
              [] \<Rightarrow> [[c]]
            | y # ys \<Rightarrow> (c # y) # ys))"

text \<open>\<^verbatim>\<open>sep.join(xs)\<close>.\<close>

fun join :: "string \<Rightarrow> string list \<Rightarrow> string" where
  "join sep [] = []"
| "join sep [x] = x"
| "join sep (x # y # ys) = x @ sep @ join sep (y # ys)"

text \<open>\<^verbatim>\<open>str.lower\<close>: A-Z and the Latin-1 capitals (all of 192..222 but the
  multiplication sign 215) move up by 32.\<close>

definition lower_char :: "char \<Rightarrow> char" where
  "lower_char c =
     (if (65 \<le> code c \<and> code c \<le> 90) \<or> (192 \<le> code c \<and> code c \<le> 222 \<and> code c \<noteq> 215)
      then char_of (code c + 32) else c)"

definition lower :: "string \<Rightarrow> string" where
  "lower s = map lower_char s"

definition startswith :: "string \<Rightarrow> string \<Rightarrow> bool" where
  "startswith s p = (take (length p) s = p)"

subsection \<open>Integers and their decimal text\<close>

definition is_digit :: "char \<Rightarrow> bool" where
  "is_digit c = (48 \<le> code c \<and> code c \<le> 57)"

definition digit_val :: "char \<Rightarrow> nat" where
  "digit_val c = code c - 48"

text \<open>The white space \<^verbatim>\<open>int(s)\<close> skips at both ends: narrower than that of
  \<^verbatim>\<open>str.strip\<close> (the separators 28..31 are not skipped).\<close>

definition int_space :: "char \<Rightarrow> bool" where
  "int_space c = ((9 \<le> code c \<and> code c \<le> 13) \<or> code c = 32 \<or> code c = 133 \<or> code c = 160)"

text \<open>The digits after the first one: a single underscore may stand between two
  digits.\<close>

fun more_digits :: "nat \<Rightarrow> string \<Rightarrow> nat option" where
  "more_digits acc [] = Some acc"
| "more_digits acc [c] = (if is_digit c then Some (10 * acc + digit_val c) else None)"
| "more_digits acc (c # d # ds) =
     (if is_digit c then more_digits (10 * acc + digit_val c) (d # ds)
      else if c = CHR ''_'' \<and> is_digit d then more_digits (10 * acc + digit_val d) ds
      else None)"

definition py_nat :: "string \<Rightarrow> nat option" where
  "py_nat s = (case s of [] \<Rightarrow> None
               | c # cs \<Rightarrow> if is_digit c then more_digits (digit_val c) cs else None)"

text \<open>The limit of the interpreter on the digits of a decimal conversion
  (\<^verbatim>\<open>sys.get_int_max_str_digits()\<close>, 4300 unless the interpreter is configured otherwise):
  \<^verbatim>\<open>int(s)\<close> raises ValueError for a literal with more digits, the underscores not
  counted, and \<^verbatim>\<open>str(i)\<close> for a number with more digits.\<close>

definition int_max_str_digits :: nat where
  "int_max_str_digits = 4300"

text \<open>\<^verbatim>\<open>int(s)\<close> in base 10; \<open>None\<close> is ValueError.\<close>

definition py_int :: "string \<Rightarrow> int option" where
  "py_int s =
     (let t = rev (dropWhile int_space (rev (dropWhile int_space s)))
      in if int_max_str_digits < length (filter is_digit t) then None
         else case t of
           [] \<Rightarrow> None
         | c # cs \<Rightarrow>
             if c = CHR ''+'' then map_option int (py_nat cs)
             else if c = CHR ''-'' then map_option (\<lambda>n. - int n) (py_nat cs)
             else map_option int (py_nat t))"

definition digit_char :: "nat \<Rightarrow> char" where
  "digit_char n = char_of (48 + n)"

function str_of_nat :: "nat \<Rightarrow> string" where
  "str_of_nat n = (if n < 10 then [digit_char n] else str_of_nat (n div 10) @ [digit_char (n mod 10)])"
  by pat_completeness auto
termination
  by (relation "measure id") auto

declare str_of_nat.simps [simp del]

text \<open>\<^verbatim>\<open>str(i)\<close>, which is what an f-string field \<^verbatim>\<open>{i}\<close> inserts; \<open>None\<close> is
  ValueError, for a number of more digits than the limit.\<close>

definition str_of_int :: "int \<Rightarrow> string option" where
  "str_of_int i =
     (let ds = str_of_nat (nat \<bar>i\<bar>)
      in if int_max_str_digits < length ds then None
         else Some (if i < 0 then CHR ''-'' # ds else ds))"

subsection \<open>SHA-256 (hashlib)\<close>

text \<open>
  \<^verbatim>\<open>hashlib.sha256\<close> is the standard library's; it is modelled by the algorithm of
  FIPS 180-4 on 32-bit words. The hash object keeps the chaining value, the bytes of
  the block not yet complete, and the number of bytes taken so far, so that its memory
  does not grow with the input.
\<close>

type_synonym word32 = "32 word"

definition rotr :: "nat \<Rightarrow> word32 \<Rightarrow> word32" where
  "rotr n x = or (drop_bit n x) (push_bit (32 - n) x)"

definition Ch :: "word32 \<Rightarrow> word32 \<Rightarrow> word32 \<Rightarrow> word32" where
  "Ch x y z = xor (and x y) (and (not x) z)"

definition Maj :: "word32 \<Rightarrow> word32 \<Rightarrow> word32 \<Rightarrow> word32" where
  "Maj x y z = xor (xor (and x y) (and x z)) (and y z)"

definition Sigma0 :: "word32 \<Rightarrow> word32" where
  "Sigma0 x = xor (xor (rotr 2 x) (rotr 13 x)) (rotr 22 x)"

definition Sigma1 :: "word32 \<Rightarrow> word32" where
  "Sigma1 x = xor (xor (rotr 6 x) (rotr 11 x)) (rotr 25 x)"

definition sigma0 :: "word32 \<Rightarrow> word32" where
  "sigma0 x = xor (xor (rotr 7 x) (rotr 18 x)) (drop_bit 3 x)"

definition sigma1 :: "word32 \<Rightarrow> word32" where
  "sigma1 x = xor (xor (rotr 17 x) (rotr 19 x)) (drop_bit 10 x)"

text \<open>
  The constants of the standard: the first 32 bits of the fractional parts of the cube
  roots of the first 64 primes, and of the square roots of the first 8 primes. \<open>iroot k n\<close>
  is the integer \<open>k\<close>-th root of \<open>n\<close> (below \<open>2 ^ 40\<close>), built bit by bit from the top.
\<close>

definition iroot :: "nat \<Rightarrow> nat \<Rightarrow> nat" where
  "iroot k n = fold (\<lambda>b r. if (r + 2 ^ b) ^ k \<le> n then r + 2 ^ b else r) (rev [0..<40]) 0"

definition primes64 :: "nat list" where
  "primes64 =
     [2, 3, 5, 7, 11, 13, 17, 19, 23, 29, 31, 37, 41, 43, 47, 53,
      59, 61, 67, 71, 73, 79, 83, 89, 97, 101, 103, 107, 109, 113, 127, 131,
      137, 139, 149, 151, 157, 163, 167, 173, 179, 181, 191, 193, 197, 199, 211, 223,
      227, 229, 233, 239, 241, 251, 257, 263, 269, 271, 277, 281, 283, 293, 307, 311]"

definition K256 :: "word32 list" where
  "K256 = map (\<lambda>p. of_nat (iroot 3 (p * 2 ^ 96))) primes64"

definition H256 :: "word32 list" where
  "H256 = map (\<lambda>p. of_nat (iroot 2 (p * 2 ^ 64))) [2, 3, 5, 7, 11, 13, 17, 19]"

text \<open>Big-endian words of a block of bytes (a block is 64 bytes long: no group of
  fewer than four bytes is left over).\<close>

fun be_words :: "string \<Rightarrow> word32 list" where
  "be_words (a # b # c # d # rest) =
     (push_bit 24 (of_char a) + push_bit 16 (of_char b) + push_bit 8 (of_char c) + of_char d)
     # be_words rest"
| "be_words bs = []"

text \<open>The message schedule: \<open>n\<close> more words after the ones of the block.\<close>

fun schedule :: "nat \<Rightarrow> word32 list \<Rightarrow> word32 list" where
  "schedule 0 w = w"
| "schedule (Suc n) w =
     (let t = length w
      in schedule n (w @ [sigma1 (w ! (t - 2)) + w ! (t - 7) + sigma0 (w ! (t - 15)) + w ! (t - 16)]))"

type_synonym vars = "word32 \<times> word32 \<times> word32 \<times> word32 \<times> word32 \<times> word32 \<times> word32 \<times> word32"

definition sha_round :: "word32 \<times> word32 \<Rightarrow> vars \<Rightarrow> vars" where
  "sha_round kw v =
     (case v of (a, b, c, d, e, f, g, h) \<Rightarrow>
        (let T1 = h + Sigma1 e + Ch e f g + fst kw + snd kw;
             T2 = Sigma0 a + Maj a b c
         in (T1 + T2, a, b, c, d + T1, e, f, g)))"

definition compress :: "word32 list \<Rightarrow> string \<Rightarrow> word32 list" where
  "compress hs block =
     (case hs of
        [h0, h1, h2, h3, h4, h5, h6, h7] \<Rightarrow>
          (case fold sha_round (zip K256 (schedule 48 (be_words block))) (h0, h1, h2, h3, h4, h5, h6, h7) of
             (a, b, c, d, e, f, g, h) \<Rightarrow>
               [h0 + a, h1 + b, h2 + c, h3 + d, h4 + e, h5 + f, h6 + g, h7 + h])
      | _ \<Rightarrow> hs)"

text \<open>Feeding bytes: every complete block of 64 bytes is compressed, the rest is
  kept.\<close>

function absorb :: "word32 list \<Rightarrow> string \<Rightarrow> word32 list \<times> string" where
  "absorb hs bs =
     (if length bs < 64 then (hs, bs) else absorb (compress hs (take 64 bs)) (drop 64 bs))"
  by pat_completeness auto
termination
  by (relation "measure (\<lambda>(hs, bs). length bs)") auto

declare absorb.simps [simp del]

text \<open>The padding of a message of \<open>n\<close> bytes: the byte 0x80, zero bytes up to 56
  modulo 64, and the length in bits as 8 bytes, big-endian.\<close>

definition be_bytes :: "nat \<Rightarrow> nat \<Rightarrow> string" where
  "be_bytes k n = map (\<lambda>i. char_of (n div 256 ^ i)) (rev [0..<k])"

definition padding :: "nat \<Rightarrow> string" where
  "padding n = CHR 0x80 # replicate ((119 - n mod 64) mod 64) (CHR 0x00) @ be_bytes 8 (8 * n)"

definition hex_char :: "nat \<Rightarrow> char" where
  "hex_char n = (if n < 10 then char_of (48 + n) else char_of (87 + n))"

definition hex_word :: "word32 \<Rightarrow> string" where
  "hex_word w = map (\<lambda>i. hex_char (unat (and (drop_bit (4 * i) w) 15))) (rev [0..<8])"

text \<open>The digest of a whole message, in lowercase hexadecimal.\<close>

definition sha256_hex :: "string \<Rightarrow> string" where
  "sha256_hex msg = concat (map hex_word (fst (absorb H256 (msg @ padding (length msg)))))"

text \<open>The hash object: \<^verbatim>\<open>hashlib.sha256()\<close>, \<^verbatim>\<open>h.update(data)\<close>,
  \<^verbatim>\<open>h.hexdigest()\<close>.\<close>

record hasher =
  chain :: "word32 list"
  pending :: string
  taken :: nat

definition hasher_new :: hasher where
  "hasher_new = \<lparr>chain = H256, pending = [], taken = 0\<rparr>"

definition hasher_update :: "hasher \<Rightarrow> string \<Rightarrow> hasher" where
  "hasher_update h data =
     (case absorb (chain h) (pending h @ data) of
        (hs, rest) \<Rightarrow> \<lparr>chain = hs, pending = rest, taken = taken h + length data\<rparr>)"

definition hasher_hexdigest :: "hasher \<Rightarrow> string" where
  "hasher_hexdigest h = concat (map hex_word (fst (absorb (chain h) (pending h @ padding (taken h)))))"

subsection \<open>The file system\<close>

text \<open>
  A path is the sequence of its components, as pathlib keeps them in \<^verbatim>\<open>parts\<close>: \<open>[]\<close>
  is the working directory itself, and an absolute path has its root, \<^verbatim>\<open>/\<close> or \<^verbatim>\<open>//\<close>,
  as its first component. The file system lists the entries that exist, each under
  its path from the working directory by names (no root, no \<^verbatim>\<open>..\<close>: the predicates
  \<open>plain\<close> and \<open>plain_entries\<close> below); the order of the list stands for the order in
  which the operating system enumerates them. An entry is a directory or a regular
  file with its bytes. The operations on the file system take a path as the key of an
  entry, which is what the operating system does with a path of names; what it does
  with a root or with \<^verbatim>\<open>..\<close> on the way, and symbolic links, are outside the model, and
  the properties of these operations are stated for plain paths.
\<close>

type_synonym path = "string list"

datatype node = File string | Dir

type_synonym filesystem = "(path \<times> node) list"

definition lookup :: "filesystem \<Rightarrow> path \<Rightarrow> node option" where
  "lookup fs p = (if p = [] then Some Dir else map_of fs p)"

text \<open>\<^verbatim>\<open>Path.exists()\<close> and \<^verbatim>\<open>Path.is_dir()\<close>, as the entries decide them.\<close>

definition exists :: "filesystem \<Rightarrow> path \<Rightarrow> bool" where
  "exists fs p = (lookup fs p \<noteq> None)"

definition is_dir :: "filesystem \<Rightarrow> path \<Rightarrow> bool" where
  "is_dir fs p = (lookup fs p = Some Dir)"

text \<open>Opening a file for reading and reading all of it.\<close>

definition read_bytes :: "filesystem \<Rightarrow> path \<Rightarrow> py_error + string" where
  "read_bytes fs p =
     (case lookup fs p of
        None \<Rightarrow> Inl FileNotFoundError
      | Some Dir \<Rightarrow> Inl IsADirectoryError
      | Some (File b) \<Rightarrow> Inr b)"

text \<open>\<^verbatim>\<open>str(path)\<close> and \<^verbatim>\<open>path.as_posix()\<close>, which agree on a POSIX host.\<close>

definition as_posix :: "path \<Rightarrow> string" where
  "as_posix p = (if p = [] then ''.'' else join ''/'' p)"

text \<open>\<^verbatim>\<open>path.name\<close>: the last component, empty for the working directory.\<close>

definition name :: "path \<Rightarrow> string" where
  "name p = (if p = [] then [] else last p)"

text \<open>\<^verbatim>\<open>path.parent\<close>: the working directory is its own parent.\<close>

definition parent :: "path \<Rightarrow> path" where
  "parent p = butlast p"

text \<open>\<^verbatim>\<open>f.relative_to(root)\<close>: ValueError when \<open>f\<close> is not under \<open>root\<close>.\<close>

definition relative_to :: "path \<Rightarrow> path \<Rightarrow> py_error + path" where
  "relative_to f root = (if prefix root f then Inr (drop (length root) f) else Inl ValueError)"

text \<open>\<^verbatim>\<open>root / s\<close> for a string: the components of \<open>s\<close> between slashes, the empty
  ones and \<^verbatim>\<open>.\<close> dropped (\<^verbatim>\<open>..\<close> is kept), after those of \<open>root\<close>; when \<open>s\<close> begins
  with a slash it is absolute and replaces \<open>root\<close>, its own root being \<^verbatim>\<open>//\<close> for
  exactly two slashes at the beginning and \<^verbatim>\<open>/\<close> otherwise.\<close>

definition joinpath :: "path \<Rightarrow> string \<Rightarrow> path" where
  "joinpath root s =
     (let names = filter (\<lambda>c. c \<noteq> [] \<and> c \<noteq> ''.'') (split_on CHR ''/'' s)
      in if startswith s ''/''
         then (if startswith s ''//'' \<and> \<not> startswith s ''///'' then ''//'' else ''/'') # names
         else root @ names)"

text \<open>\<^verbatim>\<open>root.rglob("*")\<close>: every entry below \<open>root\<close>, files and directories, hidden
  or not, in the order of enumeration.\<close>

definition rglob :: "path \<Rightarrow> filesystem \<Rightarrow> path list" where
  "rglob root fs = filter (strict_prefix root) (map fst fs)"

text \<open>\<^verbatim>\<open>shutil.rmtree(d)\<close> for a plain path \<open>d\<close>: the directory and all below it; the
  working directory itself cannot be removed.\<close>

definition rmtree :: "path \<Rightarrow> filesystem \<Rightarrow> py_error + filesystem" where
  "rmtree d fs =
     (case lookup fs d of
        None \<Rightarrow> Inl FileNotFoundError
      | Some (File _) \<Rightarrow> Inl NotADirectoryError
      | Some Dir \<Rightarrow> if d = [] then Inl OSError else Inr (filter (\<lambda>e. \<not> prefix d (fst e)) fs))"

text \<open>\<^verbatim>\<open>os.mkdir(p)\<close> for a plain path \<open>p\<close>.\<close>

definition os_mkdir :: "path \<Rightarrow> filesystem \<Rightarrow> py_error + filesystem" where
  "os_mkdir p fs =
     (if exists fs p then Inl FileExistsError
      else (case lookup fs (parent p) of
              None \<Rightarrow> Inl FileNotFoundError
            | Some (File _) \<Rightarrow> Inl NotADirectoryError
            | Some Dir \<Rightarrow> Inr (AList.update p Dir fs)))"

text \<open>\<^verbatim>\<open>p.mkdir(parents=False, exist_ok=True)\<close> and
  \<^verbatim>\<open>p.mkdir(parents=True, exist_ok=True)\<close>, as pathlib writes them: try
  \<^verbatim>\<open>os.mkdir\<close>; on FileNotFoundError make the parent first and try once more; on any
  other OSError be content when the path is a directory.\<close>

definition mkdir_exist_ok :: "path \<Rightarrow> filesystem \<Rightarrow> py_error + filesystem" where
  "mkdir_exist_ok p fs =
     (case os_mkdir p fs of
        Inr fs' \<Rightarrow> Inr fs'
      | Inl e \<Rightarrow> if e = FileNotFoundError then Inl e
                 else if is_dir fs p then Inr fs else Inl e)"

function mkdir_parents :: "path \<Rightarrow> filesystem \<Rightarrow> py_error + filesystem" where
  "mkdir_parents p fs =
     (case os_mkdir p fs of
        Inr fs' \<Rightarrow> Inr fs'
      | Inl e \<Rightarrow>
          if e = FileNotFoundError then
            (if parent p = p then Inl e
             else (case mkdir_parents (parent p) fs of
                     Inl e' \<Rightarrow> Inl e'
                   | Inr fs' \<Rightarrow> mkdir_exist_ok p fs'))
          else if is_dir fs p then Inr fs else Inl e)"
  by pat_completeness auto
termination
proof (relation "measure (\<lambda>(p, fs). length p)")
  show "wf (measure (\<lambda>(p, fs). length p))" by simp
next
  fix p :: path and fs :: filesystem
  assume "parent p \<noteq> p"
  then have "p \<noteq> []" by (auto simp: parent_def)
  then show "((parent p, fs), (p, fs)) \<in> measure (\<lambda>(p, fs). length p)"
    by (simp add: parent_def)
qed

declare mkdir_parents.simps [simp del]

text \<open>Opening the file at a plain path for writing and writing all of \<open>data\<close>: an
  existing file is truncated, a missing one created in its directory.\<close>

definition write_bytes :: "path \<Rightarrow> string \<Rightarrow> filesystem \<Rightarrow> py_error + filesystem" where
  "write_bytes p data fs =
     (case lookup fs p of
        Some Dir \<Rightarrow> Inl IsADirectoryError
      | Some (File _) \<Rightarrow> Inr (AList.update p (File data) fs)
      | None \<Rightarrow>
          (case lookup fs (parent p) of
             None \<Rightarrow> Inl FileNotFoundError
           | Some (File _) \<Rightarrow> Inl NotADirectoryError
           | Some Dir \<Rightarrow> Inr (AList.update p (File data) fs)))"

text \<open>\<^verbatim>\<open>shutil.copy2(src, dst)\<close> for plain paths: into \<open>dst\<close> under the source's name
  when \<open>dst\<close> is a directory; SameFileError when both are one existing entry; then the
  source is opened for reading and the target for writing. Timestamps and permissions
  are not modelled.\<close>

definition copy2 :: "path \<Rightarrow> path \<Rightarrow> filesystem \<Rightarrow> py_error + filesystem" where
  "copy2 src dst fs =
     (let target = (if is_dir fs dst then dst @ [if src = [] then ''.'' else last src] else dst);
          same = (exists fs src \<and> (target = src \<or> (src = [] \<and> target = [''.''])))
      in if same then Inl SameFileError
         else (case read_bytes fs src of
                 Inl e \<Rightarrow> Inl e
               | Inr data \<Rightarrow> write_bytes target data fs))"

text \<open>
  \<^verbatim>\<open>os.stat\<close> can fail for a reason that the entries do not show: a directory on the
  way to the path that may not be searched (PermissionError), a name that is too long
  (OSError). A \<open>stat_error\<close> gives, for a path, the exception that \<^verbatim>\<open>os.stat\<close> raises
  there, and \<open>None\<close> where the entries decide. \<^verbatim>\<open>Path.exists()\<close>, as pathlib of
  Python 3.11 has it, calls \<^verbatim>\<open>os.stat\<close>: it answers \<^verbatim>\<open>False\<close> when that raises for a
  missing entry or for a file on the way (the errors pathlib ignores; the two more it
  ignores, for a bad descriptor and for a loop of links, do not arise here) or raises
  ValueError (a path that cannot be encoded), and lets every other exception pass:
  \<open>OSError\<close> stands for any error of the operating system without a class of its
  own. The model has these errors in \<^verbatim>\<open>load_existing_version\<close>, where the test stands
  outside the \<^verbatim>\<open>try\<close>.
\<close>

type_synonym stat_error = "path \<Rightarrow> py_error option"

definition path_exists :: "stat_error \<Rightarrow> filesystem \<Rightarrow> path \<Rightarrow> py_error + bool" where
  "path_exists se fs p =
     (case se p of
        None \<Rightarrow> Inr (exists fs p)
      | Some e \<Rightarrow>
          if e = FileNotFoundError \<or> e = NotADirectoryError \<or> e = ValueError then Inr False
          else Inl e)"

subsection \<open>JSON values\<close>

text \<open>
  What \<^verbatim>\<open>json.loads\<close> returns. A dict is the list of its items (the keys distinct),
  a number keeps its text. The parser itself belongs to the standard library: the
  functions below take it as the parameter \<open>loads\<close>, from the bytes of a file to the
  parsed value, \<open>None\<close> when decoding the bytes as UTF-8 or parsing the text raises.
\<close>

datatype json =
    JNull
  | JBool bool
  | JNumber string
  | JStr string
  | JList "json list"
  | JDict "(string \<times> json) list"

subsection \<open>Version resolution\<close>

text \<open>The loop \<^verbatim>\<open>while len(parts) < 3: parts.append("0")\<close>.\<close>

function pad_parts :: "string list \<Rightarrow> string list" where
  "pad_parts parts = (if length parts < 3 then pad_parts (parts @ [''0'']) else parts)"
  by pat_completeness auto
termination
  by (relation "measure (\<lambda>parts. 3 - length parts)") auto

declare pad_parts.simps [simp del]

definition bump_patch :: "string \<Rightarrow> py_error + string" where
  "bump_patch version =
     (case pad_parts (split_on CHR ''.'' (strip version)) of
        p0 # p1 # p2 # _ \<Rightarrow>
          (case py_int p0 of
             None \<Rightarrow> Inl ValueError
           | Some major \<Rightarrow>
               (case py_int p1 of
                  None \<Rightarrow> Inl ValueError
                | Some minor \<Rightarrow>
                    (case py_int p2 of
                       None \<Rightarrow> Inl ValueError
                     | Some patch \<Rightarrow>
                         (case (str_of_int major, str_of_int minor, str_of_int (patch + 1)) of
                            (Some a, Some b, Some c) \<Rightarrow> Inr (a @ ''.'' @ b @ ''.'' @ c)
                          | _ \<Rightarrow> Inl ValueError))))
      | _ \<Rightarrow> Inl IndexError)"

text \<open>
  \<^verbatim>\<open>load_existing_version\<close>: the test \<^verbatim>\<open>manifest_path.exists()\<close> stands before the
  \<^verbatim>\<open>try\<close>, so what it raises leaves the function; every exception raised after it,
  while reading, decoding, parsing or looking up the field, is caught and turned into
  \<open>None\<close>. \<^verbatim>\<open>data.get\<close> exists on a dict only (AttributeError elsewhere, caught as
  well).
\<close>

definition load_existing_version ::
  "(string \<Rightarrow> json option) \<Rightarrow> stat_error \<Rightarrow> path \<Rightarrow> filesystem \<Rightarrow> py_error + string option" where
  "load_existing_version loads se manifest_path fs =
     (case path_exists se fs manifest_path of
        Inl e \<Rightarrow> Inl e
      | Inr there \<Rightarrow>
          if \<not> there then Inr None
          else Inr (case read_bytes fs manifest_path of
                      Inl _ \<Rightarrow> None
                    | Inr text \<Rightarrow>
                        (case loads text of
                           None \<Rightarrow> None
                         | Some (JDict items) \<Rightarrow>
                             (case map_of items ''version'' of
                                Some (JStr v) \<Rightarrow> if strip v \<noteq> [] then Some (strip v) else None
                              | _ \<Rightarrow> None)
                         | Some _ \<Rightarrow> None)))"

text \<open>
  The block \<^verbatim>\<open># Determine version\<close> of \<^verbatim>\<open>main\<close>: \<^verbatim>\<open>not version\<close> holds for an
  absent option and for the empty string; \<^verbatim>\<open>if existing\<close> for a non-empty string.
\<close>

definition determine_version ::
  "(string \<Rightarrow> json option) \<Rightarrow> stat_error \<Rightarrow> path \<Rightarrow> string option \<Rightarrow> filesystem
     \<Rightarrow> py_error + string" where
  "determine_version loads se manifest_path version fs =
     (let from_manifest =
            (case load_existing_version loads se manifest_path fs of
               Inl e \<Rightarrow> Inl e
             | Inr None \<Rightarrow> Inr ''0.0.1''
             | Inr (Some existing) \<Rightarrow>
                 if existing \<noteq> [] then bump_patch existing else Inr ''0.0.1'')
      in case version of
           None \<Rightarrow> from_manifest
         | Some v \<Rightarrow> if v = [] then from_manifest else Inr v)"

subsection \<open>Hashing a file\<close>

text \<open>
  The loop \<^verbatim>\<open>for chunk in iter(lambda: f.read(64 * 1024), b""): h.update(chunk)\<close>:
  \<open>rest\<close> is what the open file has not delivered yet; a read returns the next
  65536 bytes, or fewer at the end of the file, and the loop stops at the first empty
  read.
\<close>

function hash_chunks :: "hasher \<Rightarrow> string \<Rightarrow> hasher" where
  "hash_chunks h rest =
     (let chunk = take (64 * 1024) rest
      in if chunk = [] then h else hash_chunks (hasher_update h chunk) (drop (64 * 1024) rest))"
  by pat_completeness auto
termination
  by (relation "measure (\<lambda>(h, rest). length rest)") auto

declare hash_chunks.simps [simp del]

definition sha256_file :: "path \<Rightarrow> filesystem \<Rightarrow> py_error + string" where
  "sha256_file p fs =
     (case read_bytes fs p of
        Inl e \<Rightarrow> Inl e
      | Inr content \<Rightarrow> Inr (hasher_hexdigest (hash_chunks hasher_new content)))"

subsection \<open>Collecting the files\<close>

definition DEFAULT_EXCLUDES :: "string set" where
  "DEFAULT_EXCLUDES = {''.DS_Store'', ''Thumbs.db''}"

text \<open>The loop over \<^verbatim>\<open>app_dir.rglob("*")\<close>, \<open>files\<close> being the list built so far.\<close>

fun collect_loop :: "string set \<Rightarrow> filesystem \<Rightarrow> path list \<Rightarrow> path list \<Rightarrow> path list" where
  "collect_loop excludes fs [] files = files"
| "collect_loop excludes fs (p # ps) files =
     (if is_dir fs p then collect_loop excludes fs ps files
      else if name p \<in> excludes then collect_loop excludes fs ps files
      else if startswith (name p) ''.'' then collect_loop excludes fs ps files
      else collect_loop excludes fs ps (files @ [p]))"

text \<open>\<^verbatim>\<open>files.sort(key=lambda x: str(x).lower())\<close> is a stable sort, as
  \<^const>\<open>sort_key\<close> is; strings compare by code points.\<close>

definition collect_files :: "path \<Rightarrow> string set \<Rightarrow> filesystem \<Rightarrow> py_error + path list" where
  "collect_files app_dir excludes fs =
     (if \<not> exists fs app_dir \<or> \<not> is_dir fs app_dir then Inl FileNotFoundError
      else Inr (sort_key (\<lambda>x. lower (as_posix x))
                  (collect_loop excludes fs (rglob app_dir fs) [])))"

subsection \<open>Writing the manifest\<close>

record entry =
  path :: string
  url :: string
  sha256 :: string

record manifest =
  version :: string
  files :: "entry list"

text \<open>
  \<^verbatim>\<open>json.dumps(manifest, indent=2, sort_keys=False)\<close> on a dict of this shape. A
  string is written between double quotes, with the escapes of the quote, the backslash
  and the control characters, and \<^verbatim>\<open>\uXXXX\<close> for everything else outside the
  printable ASCII range.
\<close>

definition hex4 :: "nat \<Rightarrow> string" where
  "hex4 n = map (\<lambda>i. hex_char ((n div 16 ^ i) mod 16)) (rev [0..<4])"

definition json_escape :: "char \<Rightarrow> string" where
  "json_escape c =
     (if c = CHR 0x22 then [CHR 0x5C, CHR 0x22]
      else if c = CHR 0x5C then [CHR 0x5C, CHR 0x5C]
      else if c = CHR 0x0A then [CHR 0x5C, CHR ''n'']
      else if c = CHR 0x0D then [CHR 0x5C, CHR ''r'']
      else if c = CHR 0x09 then [CHR 0x5C, CHR ''t'']
      else if c = CHR 0x08 then [CHR 0x5C, CHR ''b'']
      else if c = CHR 0x0C then [CHR 0x5C, CHR ''f'']
      else if 32 \<le> code c \<and> code c \<le> 126 then [c]
      else [CHR 0x5C, CHR ''u''] @ hex4 (code c))"

definition json_string :: "string \<Rightarrow> string" where
  "json_string s = [CHR 0x22] @ concat (map json_escape s) @ [CHR 0x22]"

definition dumps_entry :: "entry \<Rightarrow> string" where
  "dumps_entry e =
     ''    {'' @ [CHR 0x0A]
     @ ''      '' @ json_string ''path'' @ '': '' @ json_string (path e) @ '','' @ [CHR 0x0A]
     @ ''      '' @ json_string ''url'' @ '': '' @ json_string (url e) @ '','' @ [CHR 0x0A]
     @ ''      '' @ json_string ''sha256'' @ '': '' @ json_string (sha256 e) @ [CHR 0x0A]
     @ ''    }''"

definition dumps :: "manifest \<Rightarrow> string" where
  "dumps m =
     ''{'' @ [CHR 0x0A]
     @ ''  '' @ json_string ''version'' @ '': '' @ json_string (version m) @ '','' @ [CHR 0x0A]
     @ ''  '' @ json_string ''files'' @ '': ''
     @ (if files m = [] then ''[]''
        else ''['' @ [CHR 0x0A] @ join ('','' @ [CHR 0x0A]) (map dumps_entry (files m))
             @ [CHR 0x0A] @ ''  ]'')
     @ [CHR 0x0A] @ ''}''"

text \<open>The UTF-8 bytes of a string of code points below 256.\<close>

definition utf8_encode :: "string \<Rightarrow> string" where
  "utf8_encode s =
     concat (map (\<lambda>c. if code c < 128 then [c]
                       else [char_of (192 + code c div 64), char_of (128 + code c mod 64)]) s)"

definition ensure_parent :: "path \<Rightarrow> filesystem \<Rightarrow> py_error + filesystem" where
  "ensure_parent p fs = mkdir_parents (parent p) fs"

definition write_manifest :: "path \<Rightarrow> manifest \<Rightarrow> filesystem \<Rightarrow> py_error + filesystem" where
  "write_manifest manifest_path m fs =
     (case ensure_parent manifest_path fs of
        Inl e \<Rightarrow> Inl e
      | Inr fs1 \<Rightarrow> write_bytes manifest_path (utf8_encode (dumps m @ [CHR 0x0A])) fs1)"

subsection \<open>Staging the release\<close>

text \<open>The loop \<^verbatim>\<open>for f in files\<close> of \<^verbatim>\<open>copy_release_files\<close>.\<close>

fun copy_loop :: "path \<Rightarrow> path \<Rightarrow> path list \<Rightarrow> filesystem \<Rightarrow> py_error + filesystem" where
  "copy_loop app_dir release_dir [] fs = Inr fs"
| "copy_loop app_dir release_dir (f # fs_rest) fs =
     (case relative_to f app_dir of
        Inl e \<Rightarrow> Inl e
      | Inr rel \<Rightarrow>
          (case mkdir_parents (parent (release_dir @ rel)) fs of
             Inl e \<Rightarrow> Inl e
           | Inr fs1 \<Rightarrow>
               (case copy2 f (release_dir @ rel) fs1 of
                  Inl e \<Rightarrow> Inl e
                | Inr fs2 \<Rightarrow> copy_loop app_dir release_dir fs_rest fs2)))"

definition copy_release_files ::
  "path \<Rightarrow> path list \<Rightarrow> path \<Rightarrow> filesystem \<Rightarrow> py_error + filesystem" where
  "copy_release_files app_dir fls release_dir fs =
     (case (if exists fs release_dir then rmtree release_dir fs else Inr fs) of
        Inl e \<Rightarrow> Inl e
      | Inr fs1 \<Rightarrow>
          (case mkdir_parents release_dir fs1 of
             Inl e \<Rightarrow> Inl e
           | Inr fs2 \<Rightarrow> copy_loop app_dir release_dir fls fs2))"

subsection \<open>The manifest entries\<close>

fun build_manifest_entries ::
  "path \<Rightarrow> path list \<Rightarrow> string \<Rightarrow> filesystem \<Rightarrow> py_error + entry list" where
  "build_manifest_entries app_dir [] url_base fs = Inr []"
| "build_manifest_entries app_dir (f # fs_rest) url_base fs =
     (case relative_to f app_dir of
        Inl e \<Rightarrow> Inl e
      | Inr rel \<Rightarrow>
          (case sha256_file f fs of
             Inl e \<Rightarrow> Inl e
           | Inr digest \<Rightarrow>
               (case build_manifest_entries app_dir fs_rest url_base fs of
                  Inl e \<Rightarrow> Inl e
                | Inr entries \<Rightarrow>
                    Inr (\<lparr>path = as_posix rel,
                          url = rstrip_slash url_base @ ''/'' @ as_posix rel,
                          sha256 = digest\<rparr> # entries))))"

subsection \<open>The driver\<close>

text \<open>
  The parsed command line, the three directories already converted by \<^verbatim>\<open>Path(...)\<close>.
  \<^verbatim>\<open>parser.parse_args(argv)\<close> belongs to the standard library and is the parameter
  \<open>parse_args\<close>: it gives the parsed command line, or leaves by \<^verbatim>\<open>SystemExit\<close> with an
  exit status (2 after a usage error, 0 after \<^verbatim>\<open>--help\<close>). \<^verbatim>\<open>main\<close> returns the exit
  code and the file system it leaves, or raises.
\<close>

record args =
  arg_user :: string
  arg_repo :: string
  arg_branch :: string
  arg_app_dir :: path
  arg_manifest_path :: path
  arg_releases_root :: path
  arg_version :: "string option"
  arg_no_copy :: bool
  arg_exclude :: "string list"

definition main ::
  "(string list \<Rightarrow> int + args) \<Rightarrow> (string \<Rightarrow> json option) \<Rightarrow> stat_error \<Rightarrow> string list
     \<Rightarrow> filesystem \<Rightarrow> py_error + (int \<times> filesystem)" where
  "main parse_args loads se argv fs =
     (case parse_args argv of
        Inl status \<Rightarrow> Inl (SystemExit status)
      | Inr a \<Rightarrow>
          (let excludes = DEFAULT_EXCLUDES \<union> set (arg_exclude a)
           in case determine_version loads se (arg_manifest_path a) (arg_version a) fs of
                Inl e \<Rightarrow> Inl e
              | Inr v \<Rightarrow>
                  (case collect_files (arg_app_dir a) excludes fs of
                     Inl e \<Rightarrow> Inl e
                   | Inr fls \<Rightarrow>
                       if fls = [] then Inr (2, fs)
                       else
                         (let release_dir = joinpath (arg_releases_root a) v
                          in case (if \<not> arg_no_copy a
                                   then copy_release_files (arg_app_dir a) fls release_dir fs
                                   else Inr fs) of
                               Inl e \<Rightarrow> Inl e
                             | Inr fs1 \<Rightarrow>
                                 (let url_base =
                                        ''https://raw.githubusercontent.com/'' @ arg_user a @ ''/''
                                        @ arg_repo a @ ''/'' @ arg_branch a @ ''/''
                                        @ as_posix (arg_releases_root a) @ ''/'' @ v
                                  in case build_manifest_entries (arg_app_dir a) fls url_base fs1 of
                                       Inl e \<Rightarrow> Inl e
                                     | Inr entries \<Rightarrow>
                                         (case write_manifest (arg_manifest_path a)
                                                 \<lparr>version = v, files = entries\<rparr> fs1 of
                                            Inl e \<Rightarrow> Inl e
                                          | Inr fs2 \<Rightarrow> Inr (0, fs2)))))))"

section \<open>Notions used in the statements\<close>

text \<open>A digest is written with the digits 0-9 and the lowercase letters a-f.\<close>

definition is_lower_hex :: "char \<Rightarrow> bool" where
  "is_lower_hex c = ((48 \<le> code c \<and> code c \<le> 57) \<or> (97 \<le> code c \<and> code c \<le> 102))"

text \<open>The hash object \<open>h\<close> has been fed exactly the bytes \<open>m\<close>.\<close>

definition fed :: "hasher \<Rightarrow> string \<Rightarrow> bool" where
  "fed h m = ((chain h, pending h) = absorb H256 m \<and> taken h = length m)"

text \<open>A component of a version in plain decimal notation, and the number it
  denotes.\<close>

definition is_decimal :: "string \<Rightarrow> bool" where
  "is_decimal s = (s \<noteq> [] \<and> list_all is_digit s)"

definition decimal_value :: "string \<Rightarrow> nat" where
  "decimal_value s = foldl (\<lambda>n c. 10 * n + digit_val c) 0 s"

text \<open>What the loop of \<^verbatim>\<open>collect_files\<close> keeps: not a directory, not an excluded name,
  not a hidden name.\<close>

definition eligible :: "string set \<Rightarrow> filesystem \<Rightarrow> path \<Rightarrow> bool" where
  "eligible excludes fs p = (\<not> is_dir fs p \<and> name p \<notin> excludes \<and> \<not> startswith (name p) ''.'')"

text \<open>
  A file system is a tree when the parent of every entry is a directory (the working
  directory is one always).
\<close>

definition tree :: "filesystem \<Rightarrow> bool" where
  "tree fs = list_all (\<lambda>e. is_dir fs (parent (fst e))) fs"

text \<open>What \<^verbatim>\<open>mkdir(parents=True, exist_ok=True)\<close> of \<open>p\<close> makes of a tree: the missing
  directories on the way to \<open>p\<close>, nothing else.\<close>

definition made :: "path \<Rightarrow> filesystem \<Rightarrow> filesystem \<Rightarrow> bool" where
  "made p fs fs' = (tree fs' \<and> is_dir fs' p
     \<and> (\<forall>q. lookup fs' q = (if prefix q p \<and> lookup fs q = None then Some Dir else lookup fs q)))"

text \<open>
  The snapshot of the files \<open>fls\<close> of the application directory: at the relative path
  \<open>q\<close> the file itself when \<open>app_dir / q\<close> is one of \<open>fls\<close>, a directory when \<open>q\<close> is the
  root of the snapshot or leads to one of \<open>fls\<close>, and nothing otherwise.
\<close>

definition staged :: "path \<Rightarrow> path list \<Rightarrow> filesystem \<Rightarrow> path \<Rightarrow> node option" where
  "staged app_dir fls fs q =
     (if app_dir @ q \<in> set fls then lookup fs (app_dir @ q)
      else if q = [] \<or> (\<exists>f\<in>set fls. strict_prefix (app_dir @ q) f) then Some Dir
      else None)"

text \<open>
  A path of names from the working directory: no root at the beginning and no \<^verbatim>\<open>..\<close>
  on the way (pathlib keeps neither an empty component nor a single dot). For such
  paths the path is the key of the entry. A file system of plain entries lists every
  entry under such a path.
\<close>

definition plain :: "path \<Rightarrow> bool" where
  "plain p = list_all (\<lambda>c. c \<noteq> [] \<and> c \<noteq> ''.'' \<and> c \<noteq> ''..'' \<and> CHR ''/'' \<notin> set c) p"

definition plain_entries :: "filesystem \<Rightarrow> bool" where
  "plain_entries fs = list_all (\<lambda>e. plain (fst e)) fs"

text \<open>
  No error of \<^verbatim>\<open>os.stat\<close> beyond what the entries say. The statements about whole
  builds are made for this case: the other operations of the model are decided by the
  entries alone, so permissions, limits on the lengths of names and the space left on
  the device are not part of it.
\<close>

definition no_stat_error :: stat_error where
  "no_stat_error p = None"

text \<open>The snapshot directory, the base of the URLs and the bytes of the manifest file
  that \<^verbatim>\<open>main\<close> works with for the resolved version \<open>v\<close>.\<close>

definition release_dir_of :: "args \<Rightarrow> string \<Rightarrow> path" where
  "release_dir_of a v = joinpath (arg_releases_root a) v"

definition url_base_of :: "args \<Rightarrow> string \<Rightarrow> string" where
  "url_base_of a v =
     ''https://raw.githubusercontent.com/'' @ arg_user a @ ''/'' @ arg_repo a @ ''/'' @ arg_branch a
     @ ''/'' @ as_posix (arg_releases_root a) @ ''/'' @ v"


subsection \<open>Example inputs\<close>

definition ota_manifest :: path where
  "ota_manifest = [''ota'', ''manifest.json'']"

text \<open>
  The JSON text of an object with the one field \<^verbatim>\<open>version\<close>, a string; the same with
  the number 7 for the version; and what \<^verbatim>\<open>json.loads\<close> answers on the texts of the
  examples: the object for these, \<open>None\<close> for the text \<^verbatim>\<open>not json\<close> (the value at any
  other text is not used).
\<close>

definition version_text :: "string \<Rightarrow> string" where
  "version_text v = ''{'' @ json_string ''version'' @ '': '' @ json_string v @ ''}''"

definition number_text :: string where
  "number_text = ''{'' @ json_string ''version'' @ '': 7}''"

definition loads_example :: "string \<Rightarrow> json option" where
  "loads_example text =
     (if text = version_text ''1.2.3'' then Some (JDict [(''version'', JStr ''1.2.3'')])
      else if text = version_text ''1.x.0'' then Some (JDict [(''version'', JStr ''1.x.0'')])
      else if text = version_text ''1.2.beta'' then Some (JDict [(''version'', JStr ''1.2.beta'')])
      else if text = number_text then Some (JDict [(''version'', JNumber ''7'')])
      else None)"

text \<open>A file system that holds a prior manifest with the given bytes.\<close>

definition fs_prior :: "string \<Rightarrow> filesystem" where
  "fs_prior text = [([''ota''], Dir), ([''ota'', ''manifest.json''], File text)]"

text \<open>A directory \<^verbatim>\<open>private\<close> that may not be searched, with a manifest in it.\<close>

definition stat_private :: stat_error where
  "stat_private p = (if strict_prefix [''private''] p then Some PermissionError else None)"

definition fs_private :: filesystem where
  "fs_private =
     [([''private''], Dir), ([''private'', ''manifest.json''], File (version_text ''1.2.3''))]"

text \<open>An application directory with the three files of the ordering example, in the
  order \<^verbatim>\<open>a.txt\<close>, \<^verbatim>\<open>sub/b.bin\<close>, \<^verbatim>\<open>B.TXT\<close>; one with hidden and excluded files
  beside \<^verbatim>\<open>main.py\<close>; an empty one.\<close>

definition fs_order :: filesystem where
  "fs_order =
     [([''app''], Dir), ([''app'', ''a.txt''], File ''a''), ([''app'', ''sub''], Dir),
      ([''app'', ''sub'', ''b.bin''], File ''b''), ([''app'', ''B.TXT''], File ''c'')]"

definition fs_hidden :: filesystem where
  "fs_hidden =
     [([''app''], Dir), ([''app'', ''.DS_Store''], File ''d''), ([''app'', ''main.py''], File ''print(1)''),
      ([''app'', ''.env''], File ''e''), ([''app'', ''Thumbs.db''], File ''t''),
      ([''app'', ''skip.me''], File ''s'')]"

definition fs_empty :: filesystem where
  "fs_empty = [([''app''], Dir)]"

text \<open>An empty application directory beside a prior manifest of version \<^verbatim>\<open>1.x.0\<close>.\<close>

definition fs_empty_prior :: filesystem where
  "fs_empty_prior = fs_empty @ fs_prior (version_text ''1.x.0'')"

definition args_default :: args where
  "args_default =
     \<lparr>arg_user = ''u'', arg_repo = ''r'', arg_branch = ''main'', arg_app_dir = [''app''],
      arg_manifest_path = ota_manifest, arg_releases_root = [''releases''],
      arg_version = None, arg_no_copy = False, arg_exclude = []\<rparr>"

text \<open>An application directory with one file.\<close>

definition fs_app :: filesystem where
  "fs_app = [([''app''], Dir), ([''app'', ''main.py''], File ''print(1)'')]"

text \<open>An application directory beside a release directory that holds a stale
  snapshot of the same version.\<close>

definition fs_stage :: filesystem where
  "fs_stage =
     [([''app''], Dir), ([''app'', ''main.py''], File ''print(1)''), ([''app'', ''lib''], Dir),
      ([''app'', ''lib'', ''x.py''], File ''x=1''), ([''releases''], Dir),
      ([''releases'', ''0.0.2''], Dir), ([''releases'', ''0.0.2'', ''old.py''], File ''stale'')]"

definition fs_staged :: filesystem where
  "fs_staged =
     [([''app''], Dir), ([''app'', ''main.py''], File ''print(1)''), ([''app'', ''lib''], Dir),
      ([''app'', ''lib'', ''x.py''], File ''x=1''), ([''releases''], Dir),
      ([''releases'', ''0.0.2''], Dir), ([''releases'', ''0.0.2'', ''lib''], Dir),
      ([''releases'', ''0.0.2'', ''lib'', ''x.py''], File ''x=1''),
      ([''releases'', ''0.0.2'', ''main.py''], File ''print(1)'')]"

text \<open>The end-to-end example: version \<^verbatim>\<open>0.0.2\<close> given on the command line; the file
  system \<open>fs_stage\<close> with an earlier manifest in place, what the staging step makes of
  it, and what the whole build makes of it.\<close>

definition args_explicit :: args where
  "args_explicit =
     \<lparr>arg_user = ''u'', arg_repo = ''r'', arg_branch = ''main'', arg_app_dir = [''app''],
      arg_manifest_path = ota_manifest, arg_releases_root = [''releases''],
      arg_version = Some ''0.0.2'', arg_no_copy = False, arg_exclude = []\<rparr>"

text \<open>
  The command lines of the examples and what argparse makes of them; the empty command
  line lacks the required options, which is a usage error (the value at any other
  command line is not used).
\<close>

definition argv_default :: "string list" where
  "argv_default = [''--user'', ''u'', ''--repo'', ''r'']"

definition argv_explicit :: "string list" where
  "argv_explicit = [''--user'', ''u'', ''--repo'', ''r'', ''--version'', ''0.0.2'']"

definition parse_args_example :: "string list \<Rightarrow> int + args" where
  "parse_args_example argv =
     (if argv = argv_default then Inr args_default
      else if argv = argv_explicit then Inr args_explicit
      else Inl 2)"





section \<open>Properties\<close>

subsection \<open>Hashing\<close>

lemma absorb_append:
  "absorb hs (m @ d) = (case absorb hs m of (hs', r) \<Rightarrow> absorb hs' (r @ d))"
proof (induction hs m rule: absorb.induct)
  case (1 hs bs)
  show ?case
  proof (cases "length bs < 64")
    case True
    then show ?thesis by (simp add: absorb.simps [of hs bs])
  next
    case False
    then have "absorb hs (bs @ d) = absorb (compress hs (take 64 bs)) (drop 64 bs @ d)"
      by (simp add: absorb.simps [of hs "bs @ d"])
    also have "\<dots> = (case absorb (compress hs (take 64 bs)) (drop 64 bs) of
                        (hs', r) \<Rightarrow> absorb hs' (r @ d))"
      using 1 False by simp
    finally show ?thesis using False by (simp add: absorb.simps [of hs bs])
  qed
qed

lemma fed_new: "fed hasher_new []"
  by (simp add: fed_def hasher_new_def absorb.simps [of H256 "[]"])

lemma fed_update: "fed h m \<Longrightarrow> fed (hasher_update h d) (m @ d)"
  by (auto simp: fed_def hasher_update_def absorb_append [of H256 m d] split: prod.splits)

lemma fed_hash_chunks: "fed h m \<Longrightarrow> fed (hash_chunks h rest) (m @ rest)"
proof (induction h rest arbitrary: m rule: hash_chunks.induct)
  case (1 h rest)
  show ?case
  proof (cases "take (64 * 1024) rest = []")
    case True
    then have "rest = []" by simp
    with 1 show ?thesis by (simp add: hash_chunks.simps [of h "[]"])
  next
    case False
    have "fed (hash_chunks (hasher_update h (take (64 * 1024) rest)) (drop (64 * 1024) rest))
            ((m @ take (64 * 1024) rest) @ drop (64 * 1024) rest)"
      using False by (intro "1.IH" fed_update "1.prems") simp_all
    then show ?thesis using False by (simp add: hash_chunks.simps [of h rest] Let_def)
  qed
qed

lemma fed_hexdigest: "fed h m \<Longrightarrow> hasher_hexdigest h = sha256_hex m"
  by (auto simp: fed_def hasher_hexdigest_def sha256_hex_def absorb_append [of H256 m]
           split: prod.splits)

lemma length_compress: "length (compress hs b) = length hs"
  by (auto simp: compress_def split: list.splits prod.splits)

lemma length_absorb: "length (fst (absorb hs bs)) = length hs"
  by (induction hs bs rule: absorb.induct) (subst absorb.simps, simp add: length_compress)

lemma length_hex_word: "length (hex_word w) = 8"
  by (simp add: hex_word_def)

lemma length_concat_hex: "length (concat (map hex_word ws)) = 8 * length ws"
  by (induction ws) (simp_all add: length_hex_word)

lemma length_sha256_hex: "length (sha256_hex m) = 64"
  by (simp add: sha256_hex_def length_concat_hex length_absorb H256_def)

lemma hex_char_lower: "n < 16 \<Longrightarrow> is_lower_hex (hex_char n)"
  by (simp add: is_lower_hex_def hex_char_def code_def)

lemma hex_word_lower: "c \<in> set (hex_word w) \<Longrightarrow> is_lower_hex c"
proof -
  assume "c \<in> set (hex_word w)"
  then obtain i where "c = hex_char (unat (and (drop_bit (4 * i) w) 15))"
    by (auto simp: hex_word_def)
  moreover have "and (drop_bit (4 * i) w) 15 \<le> 15"
    by (rule word_and_le1)
  then have "unat (and (drop_bit (4 * i) w) 15) < 16"
    by (simp add: word_le_nat_alt)
  ultimately show ?thesis by (simp add: hex_char_lower)
qed

lemma sha256_hex_lower: "c \<in> set (sha256_hex m) \<Longrightarrow> is_lower_hex c"
  by (auto simp: sha256_hex_def hex_word_lower)

lemma sha256_file_File: "lookup fs p = Some (File content) \<Longrightarrow> sha256_file p fs = Inr (sha256_hex content)"
  using fed_hexdigest [OF fed_hash_chunks [OF fed_new, of content]]
  by (simp add: sha256_file_def read_bytes_def)

text \<open>
  C6. For every regular file, the chunked computation of \<^verbatim>\<open>sha256_file\<close> (reads of
  64 KiB, each fed to the hash object) returns the SHA-256 digest of the whole content
  of the file: 64 characters, each a digit or a lowercase letter a-f, a function of the
  bytes alone (neither the path nor the rest of the file system occurs in it).
\<close>

theorem sha256_file_digest:
  assumes "lookup fs p = Some (File content)"
  shows "sha256_file p fs = Inr (sha256_hex content)
         \<and> length (sha256_hex content) = 64
         \<and> list_all is_lower_hex (sha256_hex content)"
  using assms by (simp add: sha256_file_File length_sha256_hex list_all_iff sha256_hex_lower)

theorem sha256_file_digest_witness:
  "lookup [([''main.py''], File ''print(1)'')] [''main.py''] = Some (File ''print(1)'')
   \<and> sha256_file [''main.py''] [([''main.py''], File ''print(1)'')] = Inr (sha256_hex ''print(1)'')
   \<and> length (sha256_hex ''print(1)'') = 64
   \<and> list_all is_lower_hex (sha256_hex ''print(1)'')"
proof -
  have h: "lookup [([''main.py''], File ''print(1)'')] [''main.py''] = Some (File ''print(1)'')"
    by (simp add: lookup_def)
  show ?thesis using h sha256_file_digest [OF h] by simp
qed

subsection \<open>Version resolution\<close>

lemma pad_parts_long: "3 \<le> length ps \<Longrightarrow> pad_parts ps = ps"
  by (subst pad_parts.simps) simp

lemma length_pad_parts: "3 \<le> length (pad_parts ps)"
  by (induction ps rule: pad_parts.induct) (subst pad_parts.simps, simp)

lemma pad_parts_shape: "\<exists>p0 p1 p2 rest. pad_parts ps = p0 # p1 # p2 # rest"
proof -
  have "3 \<le> length (pad_parts ps)" by (rule length_pad_parts)
  then show ?thesis
    by (cases "pad_parts ps"; simp; rename_tac a as; case_tac as; simp; rename_tac b bs; case_tac bs; simp)
qed

lemma bump_patch_error: "bump_patch v = Inl e \<Longrightarrow> e = ValueError"
proof -
  assume a: "bump_patch v = Inl e"
  obtain p0 p1 p2 rest where "pad_parts (split_on CHR ''.'' (strip v)) = p0 # p1 # p2 # rest"
    using pad_parts_shape by blast
  with a show ?thesis
    by (simp add: bump_patch_def split: option.splits prod.splits)
qed

lemma split_on_no_sep: "sep \<notin> set a \<Longrightarrow> split_on sep a = [a]"
  by (induction a) auto

lemma split_on_append: "sep \<notin> set a \<Longrightarrow> split_on sep (a @ sep # rest) = a # split_on sep rest"
  by (induction a) auto

lemma dropWhile_hd: "s \<noteq> [] \<Longrightarrow> \<not> P (hd s) \<Longrightarrow> dropWhile P s = s"
  by (cases s) auto

lemma strip_id: "s \<noteq> [] \<Longrightarrow> \<not> py_isspace (hd s) \<Longrightarrow> \<not> py_isspace (last s) \<Longrightarrow> strip s = s"
  by (simp add: strip_def dropWhile_hd hd_rev)

lemma more_digits_decimal:
  "list_all is_digit ds \<Longrightarrow> more_digits acc ds = Some (foldl (\<lambda>n c. 10 * n + digit_val c) acc ds)"
  by (induction acc ds rule: more_digits.induct) auto

lemma py_nat_decimal: "is_decimal d \<Longrightarrow> py_nat d = Some (decimal_value d)"
  by (cases d) (auto simp: is_decimal_def py_nat_def decimal_value_def more_digits_decimal)

lemma digit_not_space: "is_digit c \<Longrightarrow> \<not> int_space c" "is_digit c \<Longrightarrow> \<not> py_isspace c"
  "is_digit c \<Longrightarrow> c \<noteq> CHR ''+''" "is_digit c \<Longrightarrow> c \<noteq> CHR ''-''" "is_digit c \<Longrightarrow> c \<noteq> CHR ''.''"
  by (auto simp: is_digit_def int_space_def py_isspace_def code_def)

lemma is_decimal_ends: "is_decimal d \<Longrightarrow> is_digit (hd d) \<and> is_digit (last d)"
  by (cases d) (auto simp: is_decimal_def list_all_iff)

lemma py_int_decimal:
  assumes d: "is_decimal d" and len: "length d \<le> int_max_str_digits"
  shows "py_int d = Some (int (decimal_value d))"
proof -
  have ne: "d \<noteq> []" using d by (simp add: is_decimal_def)
  have t: "rev (dropWhile int_space (rev (dropWhile int_space d))) = d"
    using d ne is_decimal_ends [OF d] by (simp add: dropWhile_hd hd_rev digit_not_space)
  have "filter is_digit d = d" using d by (simp add: is_decimal_def list_all_iff)
  then have cap: "\<not> int_max_str_digits < length (filter is_digit d)" using len by simp
  have "py_int d =
          (case d of [] \<Rightarrow> None
           | c # cs \<Rightarrow>
               if c = CHR ''+'' then map_option int (py_nat cs)
               else if c = CHR ''-'' then map_option (\<lambda>n. - int n) (py_nat cs)
               else map_option int (py_nat d))"
    unfolding py_int_def Let_def t using cap by (simp only: if_False)
  moreover obtain c cs where "d = c # cs" using ne by (cases d) auto
  moreover have "is_digit c" using d \<open>d = c # cs\<close> by (simp add: is_decimal_def)
  ultimately show ?thesis
    using py_nat_decimal [OF d] by (simp add: digit_not_space)
qed

lemma decimal_value_less: "list_all is_digit d \<Longrightarrow> decimal_value d < 10 ^ length d"
proof (induction d rule: rev_induct)
  case Nil
  show ?case by (simp add: decimal_value_def)
next
  case (snoc c ds)
  then have "decimal_value ds < 10 ^ length ds" "digit_val c \<le> 9"
    by (auto simp: is_digit_def digit_val_def)
  then have "10 * decimal_value ds + digit_val c < 10 * 10 ^ length ds" by linarith
  then show ?case by (simp add: decimal_value_def)
qed

lemma str_of_nat_small: "n < 10 \<Longrightarrow> str_of_nat n = [digit_char n]"
  by (subst str_of_nat.simps) simp

lemma str_of_nat_big: "\<not> n < 10 \<Longrightarrow> str_of_nat n = str_of_nat (n div 10) @ [digit_char (n mod 10)]"
  by (subst str_of_nat.simps) simp

lemma length_str_of_nat: "0 < k \<Longrightarrow> n < 10 ^ k \<Longrightarrow> length (str_of_nat n) \<le> k"
proof (induction n arbitrary: k rule: less_induct)
  case (less n)
  show ?case
  proof (cases "n < 10")
    case True
    then show ?thesis using less.prems(1) by (simp add: str_of_nat_small)
  next
    case False
    obtain j where k: "k = Suc j" using less.prems(1) by (cases k) auto
    have j: "0 < j" using False less.prems(2) k by (cases j) auto
    have "n div 10 < 10 ^ j" using less.prems(2) k by (simp add: div_less_iff_less_mult)
    moreover have "n div 10 < n" using False by simp
    ultimately have "length (str_of_nat (n div 10)) \<le> j" using less.IH j by blast
    then show ?thesis using k by (simp add: str_of_nat_big [OF False])
  qed
qed

lemma cap_positive: "0 < int_max_str_digits"
  by (simp add: int_max_str_digits_def)

lemma str_of_int_nat:
  assumes "n < 10 ^ int_max_str_digits"
  shows "str_of_int (int n) = Some (str_of_nat n)"
proof -
  have "length (str_of_nat n) \<le> int_max_str_digits"
    using cap_positive assms by (rule length_str_of_nat)
  then show ?thesis by (simp add: str_of_int_def)
qed

lemma str_of_int_decimal:
  assumes "is_decimal d" "length d \<le> int_max_str_digits"
  shows "str_of_int (int (decimal_value d)) = Some (str_of_nat (decimal_value d))"
proof -
  have "decimal_value d < 10 ^ length d"
    using assms(1) by (simp add: decimal_value_less is_decimal_def)
  also have "(10 :: nat) ^ length d \<le> 10 ^ int_max_str_digits"
    using assms(2) by (simp add: power_increasing)
  finally show ?thesis by (rule str_of_int_nat)
qed

lemma decimal_no_dot: "is_decimal d \<Longrightarrow> CHR ''.'' \<notin> set d"
  using digit_not_space(5) by (auto simp: is_decimal_def list_all_iff)

lemma bump_patch_decimal:
  assumes "is_decimal d0" "is_decimal d1" "is_decimal d2"
    and "length d0 \<le> int_max_str_digits" "length d1 \<le> int_max_str_digits"
      "length d2 \<le> int_max_str_digits"
    and "decimal_value d2 + 1 < 10 ^ int_max_str_digits"
  shows "bump_patch (d0 @ ''.'' @ d1 @ ''.'' @ d2) =
           Inr (str_of_nat (decimal_value d0) @ ''.'' @ str_of_nat (decimal_value d1) @ ''.''
                @ str_of_nat (decimal_value d2 + 1))"
proof -
  let ?v = "d0 @ ''.'' @ d1 @ ''.'' @ d2"
  have ne: "d0 \<noteq> []" "d2 \<noteq> []" using assms by (simp_all add: is_decimal_def)
  have "hd ?v = hd d0" "last ?v = last d2" using ne by simp_all
  then have "strip ?v = ?v"
    using is_decimal_ends [OF assms(1)] is_decimal_ends [OF assms(3)] ne
    by (intro strip_id) (simp_all add: digit_not_space)
  moreover have "split_on CHR ''.'' ?v = [d0, d1, d2]"
    using assms by (simp add: split_on_append split_on_no_sep decimal_no_dot)
  moreover have "str_of_int (int (decimal_value d2) + 1) = Some (str_of_nat (decimal_value d2 + 1))"
  proof -
    have "int (decimal_value d2) + 1 = int (decimal_value d2 + 1)" by simp
    then show ?thesis by (simp only: str_of_int_nat [OF assms(7)])
  qed
  ultimately show ?thesis
    using assms by (simp add: bump_patch_def pad_parts_long py_int_decimal str_of_int_decimal)
qed

lemma is_digit_digit_char: "n < 10 \<Longrightarrow> is_digit (digit_char n) \<and> digit_val (digit_char n) = n"
  by (simp add: is_digit_def digit_val_def digit_char_def code_def)

lemma decimal_snoc:
  "is_decimal ds \<Longrightarrow> is_digit c \<Longrightarrow>
     is_decimal (ds @ [c]) \<and> decimal_value (ds @ [c]) = 10 * decimal_value ds + digit_val c"
  by (simp add: is_decimal_def decimal_value_def)

lemma decimal_single:
  "is_digit c \<Longrightarrow> is_decimal [c] \<and> decimal_value [c] = digit_val c"
  by (simp add: is_decimal_def decimal_value_def)

lemma str_of_nat_decimal: "is_decimal (str_of_nat n) \<and> decimal_value (str_of_nat n) = n"
proof (induction n rule: less_induct)
  case (less n)
  show ?case
  proof (cases "n < 10")
    case True
    show ?thesis
      unfolding str_of_nat_small [OF True]
      using decimal_single [of "digit_char n"] is_digit_digit_char [OF True] by simp
  next
    case False
    then have "n div 10 < n" by simp
    then have ih: "is_decimal (str_of_nat (n div 10))" "decimal_value (str_of_nat (n div 10)) = n div 10"
      using less by simp_all
    have m: "n mod 10 < 10" by simp
    have "is_decimal (str_of_nat (n div 10) @ [digit_char (n mod 10)])
          \<and> decimal_value (str_of_nat (n div 10) @ [digit_char (n mod 10)])
              = 10 * decimal_value (str_of_nat (n div 10)) + digit_val (digit_char (n mod 10))"
      using ih(1) is_digit_digit_char [OF m] by (intro decimal_snoc) simp_all
    then show ?thesis
      unfolding str_of_nat_big [OF False] ih(2) using is_digit_digit_char [OF m] by simp
  qed
qed

lemma path_exists_plain: "se mp = None \<Longrightarrow> path_exists se fs mp = Inr (exists fs mp)"
  by (simp add: path_exists_def)

lemma load_existing_version_Inl:
  "load_existing_version loads se mp fs = Inl e \<longleftrightarrow> path_exists se fs mp = Inl e"
  by (auto simp: load_existing_version_def split: sum.splits)

lemma load_existing_version_Some:
  "load_existing_version loads se mp fs = Inr (Some s) \<longleftrightarrow>
     path_exists se fs mp = Inr True
     \<and> (\<exists>text items v. lookup fs mp = Some (File text) \<and> loads text = Some (JDict items)
          \<and> map_of items ''version'' = Some (JStr v) \<and> strip v \<noteq> [] \<and> s = strip v)"
  by (auto simp: load_existing_version_def read_bytes_def
           split: option.splits node.splits json.splits sum.splits)

lemma load_existing_version_None:
  "load_existing_version loads se mp fs = Inr None \<longleftrightarrow>
     path_exists se fs mp = Inr False
     \<or> (path_exists se fs mp = Inr True
         \<and> \<not> (\<exists>text items v. lookup fs mp = Some (File text) \<and> loads text = Some (JDict items)
                 \<and> map_of items ''version'' = Some (JStr v) \<and> strip v \<noteq> []))"
proof (cases "load_existing_version loads se mp fs")
  case (Inl e)
  then have "path_exists se fs mp = Inl e" by (simp add: load_existing_version_Inl)
  then show ?thesis using Inl by simp
next
  case (Inr r)
  then obtain there where t: "path_exists se fs mp = Inr there"
    by (cases "path_exists se fs mp") (simp_all add: load_existing_version_def)
  show ?thesis
  proof (cases r)
    case None
    then have "\<not> (there \<and> (\<exists>text items v. lookup fs mp = Some (File text)
                  \<and> loads text = Some (JDict items)
                  \<and> map_of items ''version'' = Some (JStr v) \<and> strip v \<noteq> []))"
      using Inr t load_existing_version_Some [of loads se mp fs] by auto
    then show ?thesis using Inr None t by auto
  next
    case (Some s)
    then show ?thesis using Inr load_existing_version_Some [of loads se mp fs s] by auto
  qed
qed

lemma determine_version_None:
  "determine_version loads se mp None fs =
     (case load_existing_version loads se mp fs of
        Inl e \<Rightarrow> Inl e
      | Inr None \<Rightarrow> Inr ''0.0.1''
      | Inr (Some existing) \<Rightarrow> if existing \<noteq> [] then bump_patch existing else Inr ''0.0.1'')"
  by (simp add: determine_version_def)

lemma determine_version_loaded:
  assumes "load_existing_version loads se mp fs = Inr (Some s)"
  shows "determine_version loads se mp None fs = bump_patch s"
proof -
  have "s \<noteq> []" using assms by (auto simp: load_existing_version_Some)
  then show ?thesis using assms by (simp add: determine_version_None)
qed

lemma exists_empty: "path_exists no_stat_error [] ota_manifest = Inr False"
  by (simp add: path_exists_def no_stat_error_def exists_def lookup_def ota_manifest_def)

lemma exists_prior: "path_exists no_stat_error (fs_prior text) ota_manifest = Inr True"
  by (simp add: path_exists_def no_stat_error_def exists_def lookup_def ota_manifest_def fs_prior_def)

lemma read_prior: "read_bytes (fs_prior text) ota_manifest = Inr text"
  by (simp add: read_bytes_def lookup_def ota_manifest_def fs_prior_def)

lemma load_empty: "load_existing_version loads no_stat_error ota_manifest [] = Inr None"
  by (simp add: load_existing_version_def exists_empty)

lemma loads_example_simps:
  "loads_example (version_text ''1.2.3'') = Some (JDict [(''version'', JStr ''1.2.3'')])"
  "loads_example (version_text ''1.x.0'') = Some (JDict [(''version'', JStr ''1.x.0'')])"
  "loads_example (version_text ''1.2.beta'') = Some (JDict [(''version'', JStr ''1.2.beta'')])"
  "loads_example number_text = Some (JDict [(''version'', JNumber ''7'')])"
  "loads_example ''not json'' = None"
  by code_simp+

lemma strip_examples:
  "strip ''1.2.3'' = ''1.2.3''" "strip ''1.x.0'' = ''1.x.0''" "strip ''1.2.beta'' = ''1.2.beta''"
  by (simp_all add: strip_def py_isspace_def code_def)

lemma load_prior:
  "load_existing_version loads_example no_stat_error ota_manifest (fs_prior (version_text ''1.2.3''))
     = Inr (Some ''1.2.3'')"
  "load_existing_version loads_example no_stat_error ota_manifest (fs_prior (version_text ''1.x.0''))
     = Inr (Some ''1.x.0'')"
  "load_existing_version loads_example no_stat_error ota_manifest (fs_prior (version_text ''1.2.beta''))
     = Inr (Some ''1.2.beta'')"
  "load_existing_version loads_example no_stat_error ota_manifest (fs_prior number_text) = Inr None"
  "load_existing_version loads_example no_stat_error ota_manifest (fs_prior ''not json'') = Inr None"
  by (simp_all add: load_existing_version_def exists_prior read_prior loads_example_simps
                    strip_examples)

lemma bump_patch_examples:
  "bump_patch ''1.x.0'' = Inl ValueError" "bump_patch ''1.2.beta'' = Inl ValueError"
  "bump_patch ''1.2.3'' = Inr ''1.2.4''"
  by code_simp+

text \<open>
  C1 (as the code has it). An explicit, non-empty version override is taken as it is:
  it is neither validated nor padded nor truncated, whatever the prior manifest. An
  empty override counts as no override: the version is resolved as without one.
\<close>

theorem explicit_version_verbatim:
  "(v \<noteq> [] \<longrightarrow> determine_version loads se mp (Some v) fs = Inr v)
   \<and> determine_version loads se mp (Some []) fs = determine_version loads se mp None fs"
  by (simp add: determine_version_def)

theorem explicit_version_verbatim_witness:
  "''1.x.0'' \<noteq> []
   \<and> determine_version loads_example no_stat_error ota_manifest (Some ''1.x.0'')
        (fs_prior (version_text ''1.2.3'')) = Inr ''1.x.0''
   \<and> determine_version loads_example no_stat_error ota_manifest (Some [])
        (fs_prior (version_text ''1.2.3'')) = Inr ''1.2.4''
   \<and> determine_version loads_example no_stat_error ota_manifest None
        (fs_prior (version_text ''1.2.3'')) = Inr ''1.2.4''"
proof -
  have h: "''1.x.0'' \<noteq> []" by simp
  have n: "determine_version loads_example no_stat_error ota_manifest None
             (fs_prior (version_text ''1.2.3'')) = Inr ''1.2.4''"
    by (simp add: determine_version_loaded [OF load_prior(1)] bump_patch_examples)
  show ?thesis
    using h n
      explicit_version_verbatim [of "''1.x.0''" loads_example no_stat_error ota_manifest
        "fs_prior (version_text ''1.2.3'')"]
    by simp
qed

text \<open>
  C1 as stated fails: the malformed override \<^verbatim>\<open>1.x.0\<close> is accepted, and the override
  \<^verbatim>\<open>1.2\<close> stays \<^verbatim>\<open>1.2\<close>.
\<close>

theorem explicit_version_counterexample:
  "determine_version loads_example no_stat_error ota_manifest (Some ''1.x.0'') [] = Inr ''1.x.0''
   \<and> determine_version loads_example no_stat_error ota_manifest (Some ''1.2'') [] = Inr ''1.2''
   \<and> Inr ''1.2'' \<noteq> (Inr ''1.2.0'' :: py_error + string)"
  by (simp add: determine_version_def)

text \<open>
  C2 (as the code has it). Without an explicit override, and when the test whether the
  manifest exists returns: the resolution gives \<^verbatim>\<open>0.0.1\<close> when the prior manifest is
  absent, cannot be read or does not parse; and when it raises, it raises ValueError,
  for a manifest that was read and parsed as an object whose version is a string, not
  blank, that \<^verbatim>\<open>bump_patch\<close> rejects.
\<close>

theorem determine_version_failure:
  assumes "path_exists se fs mp = Inr there"
  shows "((\<not> there \<or> (\<exists>e. read_bytes fs mp = Inl e)
             \<or> (\<exists>text. read_bytes fs mp = Inr text \<and> loads text = None))
            \<longrightarrow> determine_version loads se mp None fs = Inr ''0.0.1'')
         \<and> (\<forall>e. determine_version loads se mp None fs = Inl e \<longrightarrow>
                e = ValueError
                \<and> (\<exists>text items v. there \<and> read_bytes fs mp = Inr text
                      \<and> loads text = Some (JDict items)
                      \<and> map_of items ''version'' = Some (JStr v) \<and> strip v \<noteq> []
                      \<and> bump_patch (strip v) = Inl ValueError))"
proof (intro conjI impI allI)
  assume "\<not> there \<or> (\<exists>e. read_bytes fs mp = Inl e)
          \<or> (\<exists>text. read_bytes fs mp = Inr text \<and> loads text = None)"
  then have "load_existing_version loads se mp fs = Inr None"
    using assms by (auto simp: load_existing_version_def)
  then show "determine_version loads se mp None fs = Inr ''0.0.1''"
    by (simp add: determine_version_None)
next
  fix e
  assume a: "determine_version loads se mp None fs = Inl e"
  have "load_existing_version loads se mp fs \<noteq> Inl e'" for e'
    using assms by (simp add: load_existing_version_Inl)
  with a obtain s where s: "load_existing_version loads se mp fs = Inr (Some s)" "bump_patch s = Inl e"
    by (auto simp: determine_version_None split: sum.splits option.splits if_splits)
  then show "e = ValueError" by (simp add: bump_patch_error)
  with s assms show "\<exists>text items v. there \<and> read_bytes fs mp = Inr text
                \<and> loads text = Some (JDict items)
                \<and> map_of items ''version'' = Some (JStr v) \<and> strip v \<noteq> []
                \<and> bump_patch (strip v) = Inl ValueError"
    by (auto simp: load_existing_version_Some read_bytes_def)
qed

lemma determine_version_1x0:
  "determine_version loads_example no_stat_error ota_manifest None (fs_prior (version_text ''1.x.0''))
     = Inl ValueError"
  by (simp add: determine_version_loaded [OF load_prior(2)] bump_patch_examples)

theorem determine_version_failure_witness:
  "path_exists no_stat_error [] ota_manifest = Inr False
   \<and> determine_version loads_example no_stat_error ota_manifest None [] = Inr ''0.0.1''
   \<and> path_exists no_stat_error (fs_prior ''not json'') ota_manifest = Inr True
   \<and> read_bytes (fs_prior ''not json'') ota_manifest = Inr ''not json''
   \<and> loads_example ''not json'' = None
   \<and> determine_version loads_example no_stat_error ota_manifest None (fs_prior ''not json'')
       = Inr ''0.0.1''
   \<and> path_exists no_stat_error (fs_prior (version_text ''1.x.0'')) ota_manifest = Inr True
   \<and> determine_version loads_example no_stat_error ota_manifest None
        (fs_prior (version_text ''1.x.0'')) = Inl ValueError
   \<and> (\<exists>text items v. read_bytes (fs_prior (version_text ''1.x.0'')) ota_manifest = Inr text
          \<and> loads_example text = Some (JDict items)
          \<and> map_of items ''version'' = Some (JStr v) \<and> strip v \<noteq> []
          \<and> bump_patch (strip v) = Inl ValueError)"
proof -
  note a = determine_version_failure [where loads = loads_example, OF exists_empty]
  note b = determine_version_failure [where loads = loads_example, OF exists_prior [of "''not json''"]]
  note c = determine_version_failure [where loads = loads_example,
             OF exists_prior [of "version_text ''1.x.0''"]]
  have r: "read_bytes (fs_prior ''not json'') ota_manifest = Inr ''not json''"
    by (rule read_prior)
  have n: "loads_example ''not json'' = None" by (rule loads_example_simps)
  show ?thesis
    using a b c r n exists_empty exists_prior determine_version_1x0 by blast
qed

text \<open>
  C2 as stated fails: a prior manifest that holds the JSON text of an object whose
  version is \<^verbatim>\<open>1.x.0\<close> makes the resolution raise ValueError.
\<close>

theorem determine_version_counterexample:
  "read_bytes (fs_prior (version_text ''1.x.0'')) ota_manifest = Inr (version_text ''1.x.0'')
   \<and> loads_example (version_text ''1.x.0'') = Some (JDict [(''version'', JStr ''1.x.0'')])
   \<and> determine_version loads_example no_stat_error ota_manifest None
        (fs_prior (version_text ''1.x.0'')) = Inl ValueError"
  by (simp add: read_prior loads_example_simps determine_version_loaded [OF load_prior(2)]
                bump_patch_examples)

text \<open>
  C3 (as the code has it). Without an explicit override: when the prior manifest gives
  a version of three decimal components within the interpreter's limit on digits, the
  resolved version has the same major and minor numbers and the patch number plus one,
  each in decimal (\<^verbatim>\<open>1.2.3\<close> gives \<^verbatim>\<open>1.2.4\<close>, see the witness); when it gives no
  version, which is when the manifest is absent or is not a regular file whose content
  parses as an object with a string under \<^verbatim>\<open>version\<close> that is not blank, the resolved
  version is \<^verbatim>\<open>0.0.1\<close>; and when it gives a version that \<^verbatim>\<open>bump_patch\<close> rejects, the
  resolution raises ValueError.
\<close>

theorem determine_version_bump:
  "(load_existing_version loads se mp fs = Inr None
      \<longrightarrow> determine_version loads se mp None fs = Inr ''0.0.1'')
   \<and> (load_existing_version loads se mp fs = Inr None \<longleftrightarrow>
        path_exists se fs mp = Inr False
        \<or> (path_exists se fs mp = Inr True
            \<and> \<not> (\<exists>text items v. lookup fs mp = Some (File text) \<and> loads text = Some (JDict items)
                    \<and> map_of items ''version'' = Some (JStr v) \<and> strip v \<noteq> [])))
   \<and> (\<forall>d0 d1 d2. is_decimal d0 \<and> is_decimal d1 \<and> is_decimal d2
          \<and> length d0 \<le> int_max_str_digits \<and> length d1 \<le> int_max_str_digits
          \<and> length d2 \<le> int_max_str_digits
          \<and> decimal_value d2 + 1 < 10 ^ int_max_str_digits
          \<and> load_existing_version loads se mp fs = Inr (Some (d0 @ ''.'' @ d1 @ ''.'' @ d2))
        \<longrightarrow> determine_version loads se mp None fs =
              Inr (str_of_nat (decimal_value d0) @ ''.'' @ str_of_nat (decimal_value d1) @ ''.''
                   @ str_of_nat (decimal_value d2 + 1)))
   \<and> (\<forall>s e. load_existing_version loads se mp fs = Inr (Some s) \<and> bump_patch s = Inl e
        \<longrightarrow> determine_version loads se mp None fs = Inl ValueError)"
proof (intro conjI impI allI)
  assume "load_existing_version loads se mp fs = Inr None"
  then show "determine_version loads se mp None fs = Inr ''0.0.1''"
    by (simp add: determine_version_None)
next
  show "load_existing_version loads se mp fs = Inr None \<longleftrightarrow>
        path_exists se fs mp = Inr False
        \<or> (path_exists se fs mp = Inr True
            \<and> \<not> (\<exists>text items v. lookup fs mp = Some (File text) \<and> loads text = Some (JDict items)
                    \<and> map_of items ''version'' = Some (JStr v) \<and> strip v \<noteq> []))"
    by (rule load_existing_version_None)
next
  fix d0 d1 d2
  assume a: "is_decimal d0 \<and> is_decimal d1 \<and> is_decimal d2
             \<and> length d0 \<le> int_max_str_digits \<and> length d1 \<le> int_max_str_digits
             \<and> length d2 \<le> int_max_str_digits
             \<and> decimal_value d2 + 1 < 10 ^ int_max_str_digits
             \<and> load_existing_version loads se mp fs = Inr (Some (d0 @ ''.'' @ d1 @ ''.'' @ d2))"
  then have "bump_patch (d0 @ ''.'' @ d1 @ ''.'' @ d2) =
               Inr (str_of_nat (decimal_value d0) @ ''.'' @ str_of_nat (decimal_value d1) @ ''.''
                    @ str_of_nat (decimal_value d2 + 1))"
    by (intro bump_patch_decimal) simp_all
  with a show "determine_version loads se mp None fs =
                 Inr (str_of_nat (decimal_value d0) @ ''.'' @ str_of_nat (decimal_value d1) @ ''.''
                      @ str_of_nat (decimal_value d2 + 1))"
    using determine_version_loaded [of loads se mp fs "d0 @ ''.'' @ d1 @ ''.'' @ d2"] by simp
next
  fix s e
  assume a: "load_existing_version loads se mp fs = Inr (Some s) \<and> bump_patch s = Inl e"
  then have "e = ValueError" using bump_patch_error by blast
  with a show "determine_version loads se mp None fs = Inl ValueError"
    using determine_version_loaded [of loads se mp fs s] by simp
qed

lemma decimal_123:
  "is_decimal ''1'' \<and> is_decimal ''2'' \<and> is_decimal ''3''
   \<and> length ''1'' \<le> int_max_str_digits \<and> length ''2'' \<le> int_max_str_digits
   \<and> length ''3'' \<le> int_max_str_digits"
  by code_simp

lemma below_cap: "decimal_value ''3'' + 1 < 10 ^ int_max_str_digits"
proof -
  have "decimal_value ''3'' + 1 < 10 ^ 1" by code_simp
  also have "(10 :: nat) ^ 1 \<le> 10 ^ int_max_str_digits"
    using cap_positive by (intro power_increasing) simp_all
  finally show ?thesis .
qed

lemma render_124:
  "str_of_nat (decimal_value ''1'') @ ''.'' @ str_of_nat (decimal_value ''2'') @ ''.''
     @ str_of_nat (decimal_value ''3'' + 1) = ''1.2.4''"
  by code_simp

theorem determine_version_bump_witness:
  "load_existing_version loads_example no_stat_error ota_manifest [] = Inr None
   \<and> determine_version loads_example no_stat_error ota_manifest None [] = Inr ''0.0.1''
   \<and> is_decimal ''1'' \<and> is_decimal ''2'' \<and> is_decimal ''3''
   \<and> length ''1'' \<le> int_max_str_digits \<and> length ''2'' \<le> int_max_str_digits
   \<and> length ''3'' \<le> int_max_str_digits
   \<and> decimal_value ''3'' + 1 < 10 ^ int_max_str_digits
   \<and> load_existing_version loads_example no_stat_error ota_manifest
        (fs_prior (version_text ''1.2.3'')) = Inr (Some ''1.2.3'')
   \<and> determine_version loads_example no_stat_error ota_manifest None
        (fs_prior (version_text ''1.2.3'')) = Inr ''1.2.4''
   \<and> load_existing_version loads_example no_stat_error ota_manifest
        (fs_prior (version_text ''1.x.0'')) = Inr (Some ''1.x.0'')
   \<and> bump_patch ''1.x.0'' = Inl ValueError
   \<and> determine_version loads_example no_stat_error ota_manifest None
        (fs_prior (version_text ''1.x.0'')) = Inl ValueError
   \<and> load_existing_version loads_example no_stat_error ota_manifest (fs_prior number_text)
       = Inr None"
proof -
  note t0 = determine_version_bump [of loads_example no_stat_error ota_manifest "[]"]
  note t1 = determine_version_bump [of loads_example no_stat_error ota_manifest
              "fs_prior (version_text ''1.2.3'')"]
  note t2 = determine_version_bump [of loads_example no_stat_error ota_manifest
              "fs_prior (version_text ''1.x.0'')"]
  have b: "load_existing_version loads_example no_stat_error ota_manifest
             (fs_prior (version_text ''1.2.3'')) = Inr (Some (''1'' @ ''.'' @ ''2'' @ ''.'' @ ''3''))"
    using load_prior(1) by simp
  have "determine_version loads_example no_stat_error ota_manifest None
          (fs_prior (version_text ''1.2.3'')) =
          Inr (str_of_nat (decimal_value ''1'') @ ''.'' @ str_of_nat (decimal_value ''2'') @ ''.''
               @ str_of_nat (decimal_value ''3'' + 1))"
    using t1 decimal_123 below_cap b by blast
  then have c: "determine_version loads_example no_stat_error ota_manifest None
                  (fs_prior (version_text ''1.2.3'')) = Inr ''1.2.4''"
    unfolding render_124 .
  have d: "determine_version loads_example no_stat_error ota_manifest None [] = Inr ''0.0.1''"
    using t0 load_empty by blast
  have e: "determine_version loads_example no_stat_error ota_manifest None
             (fs_prior (version_text ''1.x.0'')) = Inl ValueError"
    using t2 load_prior(2) bump_patch_examples(1) by blast
  show ?thesis
    using load_empty c d e decimal_123 below_cap load_prior(1,2,4) bump_patch_examples(1)
    by (intro conjI) simp_all
qed

text \<open>
  C3 as stated fails: a prior manifest whose version, \<^verbatim>\<open>1.2.beta\<close>, is no numeric
  triple does not give \<^verbatim>\<open>0.0.1\<close>; the resolution raises ValueError.
\<close>

theorem determine_version_bump_counterexample:
  "load_existing_version loads_example no_stat_error ota_manifest
      (fs_prior (version_text ''1.2.beta'')) = Inr (Some ''1.2.beta'')
   \<and> determine_version loads_example no_stat_error ota_manifest None
        (fs_prior (version_text ''1.2.beta'')) = Inl ValueError
   \<and> Inl ValueError \<noteq> (Inr ''0.0.1'' :: py_error + string)"
  by (simp add: load_prior determine_version_loaded [OF load_prior(3)] bump_patch_examples)

text \<open>
  C10. \<^verbatim>\<open>load_existing_version\<close> raises for a manifest in a directory that may not be
  searched: \<^verbatim>\<open>os.stat\<close> raises PermissionError there, \<^verbatim>\<open>Path.exists()\<close> passes it on,
  and the call stands before the \<^verbatim>\<open>try\<close> that turns every other failure into \<open>None\<close>.
\<close>

theorem load_existing_version_raises:
  "path_exists stat_private fs_private [''private'', ''manifest.json''] = Inl PermissionError
   \<and> load_existing_version loads_example stat_private [''private'', ''manifest.json''] fs_private
       = Inl PermissionError
   \<and> determine_version loads_example stat_private [''private'', ''manifest.json''] None fs_private
       = Inl PermissionError"
  by (simp add: determine_version_None load_existing_version_def path_exists_def stat_private_def
                strict_prefix_def)

subsection \<open>Collection, exclusion and order\<close>

lemma collect_loop_filter:
  "collect_loop excludes fs ps acc = acc @ filter (eligible excludes fs) ps"
  by (induction ps arbitrary: acc) (auto simp: eligible_def)

lemma collect_files_Inr:
  "collect_files app_dir excludes fs = Inr fls \<Longrightarrow>
     is_dir fs app_dir
     \<and> fls = sort_key (\<lambda>x. lower (as_posix x)) (filter (eligible excludes fs) (rglob app_dir fs))"
  by (auto simp: collect_files_def collect_loop_filter split: if_splits)

lemma collect_files_set:
  "collect_files app_dir excludes fs = Inr fls \<Longrightarrow> f \<in> set fls \<Longrightarrow>
     strict_prefix app_dir f \<and> eligible excludes fs f \<and> f \<in> fst ` set fs"
  by (auto dest!: collect_files_Inr simp: rglob_def)

lemma build_manifest_entries_paths:
  "build_manifest_entries app_dir fls url_base fs = Inr entries \<Longrightarrow>
     map path entries = map (\<lambda>f. as_posix (drop (length app_dir) f)) fls"
  by (induction fls arbitrary: entries)
     (auto simp: relative_to_def split: sum.splits if_splits)

lemma append_le_append: "(p @ x \<le> p @ y) = (x \<le> (y :: 'a :: linorder list))"
  by (induction p) auto

lemma join_append:
  "xs \<noteq> [] \<Longrightarrow> ys \<noteq> [] \<Longrightarrow> join sep (xs @ ys) = join sep xs @ sep @ join sep ys"
  by (induction sep xs rule: join.induct) (auto simp: neq_Nil_conv)

lemma as_posix_under:
  assumes "strict_prefix app_dir f"
  shows "lower (as_posix f) =
           (if app_dir = [] then [] else lower (as_posix app_dir @ ''/''))
           @ lower (as_posix (drop (length app_dir) f))"
proof -
  obtain rel where f: "f = app_dir @ rel" "rel \<noteq> []"
    using assms by (auto simp: strict_prefix_def prefix_def)
  then show ?thesis
    by (auto simp: as_posix_def lower_def join_append)
qed

lemma sorted_relative:
  assumes "\<forall>f\<in>set fls. strict_prefix app_dir f"
    and "sorted (map (\<lambda>x. lower (as_posix x)) fls)"
  shows "sorted (map (\<lambda>f. lower (as_posix (drop (length app_dir) f))) fls)"
proof -
  define P where "P = (if app_dir = [] then [] else lower (as_posix app_dir @ ''/''))"
  have eq: "map (\<lambda>x. lower (as_posix x)) fls
              = map (\<lambda>f. P @ lower (as_posix (drop (length app_dir) f))) fls"
  proof (rule map_cong [OF refl])
    fix f assume "f \<in> set fls"
    then have "strict_prefix app_dir f" using assms(1) by simp
    then show "lower (as_posix f) = P @ lower (as_posix (drop (length app_dir) f))"
      unfolding P_def by (rule as_posix_under)
  qed
  from assms(2) have "sorted (map (\<lambda>f. P @ lower (as_posix (drop (length app_dir) f))) fls)"
    by (simp only: eq)
  then show ?thesis
    by (simp add: sorted_map append_le_append)
qed

lemma collect_fs_order:
  "collect_files [''app''] DEFAULT_EXCLUDES fs_order
     = Inr [[''app'', ''a.txt''], [''app'', ''B.TXT''], [''app'', ''sub'', ''b.bin'']]"
  by code_simp

lemma build_fs_order:
  "build_manifest_entries [''app'']
       [[''app'', ''a.txt''], [''app'', ''B.TXT''], [''app'', ''sub'', ''b.bin'']] ''https://host/1'' fs_order
     = Inr [\<lparr>path = ''a.txt'', url = ''https://host/1/a.txt'', sha256 = sha256_hex ''a''\<rparr>,
            \<lparr>path = ''B.TXT'', url = ''https://host/1/B.TXT'', sha256 = sha256_hex ''c''\<rparr>,
            \<lparr>path = ''sub/b.bin'', url = ''https://host/1/sub/b.bin'', sha256 = sha256_hex ''b''\<rparr>]"
proof -
  have "lookup fs_order [''app'', ''a.txt''] = Some (File ''a'')"
       "lookup fs_order [''app'', ''B.TXT''] = Some (File ''c'')"
       "lookup fs_order [''app'', ''sub'', ''b.bin''] = Some (File ''b'')"
    by (simp_all add: lookup_def fs_order_def)
  then show ?thesis
    by (simp add: sha256_file_File relative_to_def as_posix_def rstrip_slash_def)
qed

lemma collect_fs_hidden:
  "collect_files [''app''] (DEFAULT_EXCLUDES \<union> set [''skip.me'']) fs_hidden = Inr [[''app'', ''main.py'']]"
  by code_simp

lemma build_fs_hidden:
  "build_manifest_entries [''app''] [[''app'', ''main.py'']] ''https://host/1'' fs_hidden
     = Inr [\<lparr>path = ''main.py'', url = ''https://host/1/main.py'', sha256 = sha256_hex ''print(1)''\<rparr>]"
proof -
  have "lookup fs_hidden [''app'', ''main.py''] = Some (File ''print(1)'')"
    by (simp add: lookup_def fs_hidden_def)
  then show ?thesis
    by (simp add: sha256_file_File relative_to_def as_posix_def rstrip_slash_def)
qed

text \<open>
  C9. Whatever the application directory and the set of excluded names, no collected
  file has an excluded name or a name that begins with a dot (so none is called
  \<^verbatim>\<open>.DS_Store\<close>, excluded or not); and the entries of the manifest are the collected
  files, one for one, under their paths relative to the application directory.
\<close>

theorem collect_files_excludes:
  assumes "collect_files app_dir excludes fs = Inr fls"
    and "build_manifest_entries app_dir fls url_base fs' = Inr entries"
  shows "(\<forall>f\<in>set fls. name f \<notin> excludes \<and> \<not> startswith (name f) ''.'' \<and> name f \<noteq> ''.DS_Store'')
         \<and> map path entries = map (\<lambda>f. as_posix (drop (length app_dir) f)) fls"
proof -
  have "name f \<notin> excludes \<and> \<not> startswith (name f) ''.'' \<and> name f \<noteq> ''.DS_Store''"
    if "f \<in> set fls" for f
    using collect_files_set [OF assms(1) that] by (auto simp: eligible_def startswith_def)
  then show ?thesis
    using build_manifest_entries_paths [OF assms(2)] by simp
qed

theorem collect_files_excludes_witness:
  "collect_files [''app''] (DEFAULT_EXCLUDES \<union> set [''skip.me'']) fs_hidden = Inr [[''app'', ''main.py'']]
   \<and> build_manifest_entries [''app''] [[''app'', ''main.py'']] ''https://host/1'' fs_hidden
       = Inr [\<lparr>path = ''main.py'', url = ''https://host/1/main.py'', sha256 = sha256_hex ''print(1)''\<rparr>]
   \<and> name [''app'', ''main.py''] \<notin> DEFAULT_EXCLUDES \<union> set [''skip.me'']
   \<and> \<not> startswith (name [''app'', ''main.py'']) ''.''
   \<and> map path [\<lparr>path = ''main.py'', url = ''https://host/1/main.py'', sha256 = sha256_hex ''print(1)''\<rparr>]
       = map (\<lambda>f. as_posix (drop (length [''app'']) f)) [[''app'', ''main.py'']]"
  using collect_files_excludes [OF collect_fs_hidden build_fs_hidden] collect_fs_hidden build_fs_hidden
  by simp

text \<open>
  C4. The collected files are sorted by the lowercase form of their path strings; the
  entries of the manifest are these files in the same order; hence the paths in the
  manifest, relative to the application directory, are sorted by their lowercase forms
  too. For \<^verbatim>\<open>a.txt\<close>, \<^verbatim>\<open>sub/b.bin\<close>, \<^verbatim>\<open>B.TXT\<close> the order is \<^verbatim>\<open>a.txt\<close>, \<^verbatim>\<open>B.TXT\<close>,
  \<^verbatim>\<open>sub/b.bin\<close> (the witness).
\<close>

theorem manifest_order:
  assumes "collect_files app_dir excludes fs = Inr fls"
    and "build_manifest_entries app_dir fls url_base fs' = Inr entries"
  shows "sorted (map (\<lambda>f. lower (as_posix f)) fls)
         \<and> map path entries = map (\<lambda>f. as_posix (drop (length app_dir) f)) fls
         \<and> sorted (map (\<lambda>e. lower (path e)) entries)"
proof -
  have s: "sorted (map (\<lambda>f. lower (as_posix f)) fls)"
    using collect_files_Inr [OF assms(1)] by simp
  have p: "map path entries = map (\<lambda>f. as_posix (drop (length app_dir) f)) fls"
    by (rule build_manifest_entries_paths [OF assms(2)])
  have "sorted (map (\<lambda>f. lower (as_posix (drop (length app_dir) f))) fls)"
    using collect_files_set [OF assms(1)] s by (intro sorted_relative) auto
  moreover have "map (\<lambda>e. lower (path e)) entries = map lower (map path entries)"
    by simp
  ultimately have "sorted (map (\<lambda>e. lower (path e)) entries)"
    by (simp only: p map_map comp_def)
  then show ?thesis using s p by simp
qed

theorem manifest_order_witness:
  "collect_files [''app''] DEFAULT_EXCLUDES fs_order
     = Inr [[''app'', ''a.txt''], [''app'', ''B.TXT''], [''app'', ''sub'', ''b.bin'']]
   \<and> build_manifest_entries [''app'']
        [[''app'', ''a.txt''], [''app'', ''B.TXT''], [''app'', ''sub'', ''b.bin'']] ''https://host/1'' fs_order
       = Inr [\<lparr>path = ''a.txt'', url = ''https://host/1/a.txt'', sha256 = sha256_hex ''a''\<rparr>,
              \<lparr>path = ''B.TXT'', url = ''https://host/1/B.TXT'', sha256 = sha256_hex ''c''\<rparr>,
              \<lparr>path = ''sub/b.bin'', url = ''https://host/1/sub/b.bin'', sha256 = sha256_hex ''b''\<rparr>]
   \<and> sorted (map lower [''a.txt'', ''B.TXT'', ''sub/b.bin''])"
proof -
  have "sorted (map (\<lambda>e. lower (path e))
                 [\<lparr>path = ''a.txt'', url = ''https://host/1/a.txt'', sha256 = sha256_hex ''a''\<rparr>,
                  \<lparr>path = ''B.TXT'', url = ''https://host/1/B.TXT'', sha256 = sha256_hex ''c''\<rparr>,
                  \<lparr>path = ''sub/b.bin'', url = ''https://host/1/sub/b.bin'', sha256 = sha256_hex ''b''\<rparr>])"
    using manifest_order [OF collect_fs_order build_fs_order] by (rule conjunct2 [THEN conjunct2])
  then have "sorted (map lower [''a.txt'', ''B.TXT'', ''sub/b.bin''])"
    by (simp only: list.map entry.simps)
  then show ?thesis
    using collect_fs_order build_fs_order by (intro conjI)
qed

subsection \<open>The empty build\<close>

lemma main_parsed:
  assumes "parse_args argv = Inr a"
  shows "main parse_args loads se argv fs =
     (case determine_version loads se (arg_manifest_path a) (arg_version a) fs of
        Inl e \<Rightarrow> Inl e
      | Inr v \<Rightarrow>
          (case collect_files (arg_app_dir a) (DEFAULT_EXCLUDES \<union> set (arg_exclude a)) fs of
             Inl e \<Rightarrow> Inl e
           | Inr fls \<Rightarrow>
               if fls = [] then Inr (2, fs)
               else (case (if \<not> arg_no_copy a
                           then copy_release_files (arg_app_dir a) fls (release_dir_of a v) fs
                           else Inr fs) of
                       Inl e \<Rightarrow> Inl e
                     | Inr fs1 \<Rightarrow>
                         (case build_manifest_entries (arg_app_dir a) fls (url_base_of a v) fs1 of
                            Inl e \<Rightarrow> Inl e
                          | Inr entries \<Rightarrow>
                              (case write_manifest (arg_manifest_path a)
                                      \<lparr>version = v, files = entries\<rparr> fs1 of
                                 Inl e \<Rightarrow> Inl e
                               | Inr fs2 \<Rightarrow> Inr (0, fs2))))))"
  unfolding main_def assms release_dir_of_def url_base_of_def Let_def by (simp only: sum.case)

text \<open>
  C8 (as the code has it). When the command line parses and the version resolves, and
  the collection step of \<^verbatim>\<open>main\<close> yields no file, \<^verbatim>\<open>main\<close> returns the exit code 2 and
  leaves the file system as it found it: no manifest, no snapshot. The empty list is
  a result of \<^verbatim>\<open>collect_files\<close>, not an exception (the witness has one). \<^verbatim>\<open>main\<close>
  returns 0 or 2, and 2 for an empty collection only. When the version resolution
  raises, \<^verbatim>\<open>main\<close> raises the same, whatever the collection would yield; when argparse
  leaves with an exit status (2 after a usage error), \<^verbatim>\<open>main\<close> leaves with it.
\<close>

theorem main_empty:
  "(\<forall>a v. parse_args argv = Inr a
        \<and> determine_version loads no_stat_error (arg_manifest_path a) (arg_version a) fs = Inr v
        \<and> collect_files (arg_app_dir a) (DEFAULT_EXCLUDES \<union> set (arg_exclude a)) fs = Inr []
      \<longrightarrow> main parse_args loads no_stat_error argv fs = Inr (2, fs))
   \<and> (\<forall>c fs'. main parse_args loads no_stat_error argv fs = Inr (c, fs') \<longrightarrow> c = 0 \<or> c = 2)
   \<and> (\<forall>fs'. main parse_args loads no_stat_error argv fs = Inr (2, fs') \<longrightarrow>
          fs' = fs
          \<and> (\<exists>a. parse_args argv = Inr a
                \<and> collect_files (arg_app_dir a) (DEFAULT_EXCLUDES \<union> set (arg_exclude a)) fs
                    = Inr []))
   \<and> (\<forall>a e. parse_args argv = Inr a
          \<and> determine_version loads no_stat_error (arg_manifest_path a) (arg_version a) fs = Inl e
        \<longrightarrow> main parse_args loads no_stat_error argv fs = Inl e)
   \<and> (\<forall>status. parse_args argv = Inl status
        \<longrightarrow> main parse_args loads no_stat_error argv fs = Inl (SystemExit status))"
proof (intro conjI allI impI)
  fix a v
  assume "parse_args argv = Inr a
          \<and> determine_version loads no_stat_error (arg_manifest_path a) (arg_version a) fs = Inr v
          \<and> collect_files (arg_app_dir a) (DEFAULT_EXCLUDES \<union> set (arg_exclude a)) fs = Inr []"
  then show "main parse_args loads no_stat_error argv fs = Inr (2, fs)"
    by (simp add: main_parsed [where parse_args = parse_args and argv = argv and a = a])
next
  fix c fs'
  assume r: "main parse_args loads no_stat_error argv fs = Inr (c, fs')"
  then obtain a where a: "parse_args argv = Inr a"
    by (cases "parse_args argv") (simp_all add: main_def)
  from r show "c = 0 \<or> c = 2"
    unfolding main_parsed [where parse_args = parse_args and argv = argv, OF a]
    by (auto split: sum.splits if_splits)
next
  fix fs'
  assume r: "main parse_args loads no_stat_error argv fs = Inr (2, fs')"
  then obtain a where a: "parse_args argv = Inr a"
    by (cases "parse_args argv") (simp_all add: main_def)
  from r have "fs' = fs
      \<and> collect_files (arg_app_dir a) (DEFAULT_EXCLUDES \<union> set (arg_exclude a)) fs = Inr []"
    unfolding main_parsed [where parse_args = parse_args and argv = argv, OF a]
    by (auto split: sum.splits if_splits)
  then show "fs' = fs" and "\<exists>a. parse_args argv = Inr a
                \<and> collect_files (arg_app_dir a) (DEFAULT_EXCLUDES \<union> set (arg_exclude a)) fs
                    = Inr []"
    using a by auto
next
  fix a e
  assume "parse_args argv = Inr a
          \<and> determine_version loads no_stat_error (arg_manifest_path a) (arg_version a) fs = Inl e"
  then show "main parse_args loads no_stat_error argv fs = Inl e"
    by (simp add: main_parsed [where parse_args = parse_args and argv = argv and a = a])
next
  fix status
  assume "parse_args argv = Inl status"
  then show "main parse_args loads no_stat_error argv fs = Inl (SystemExit status)"
    by (simp add: main_def)
qed

lemma parse_examples:
  "parse_args_example argv_default = Inr args_default"
  "parse_args_example argv_explicit = Inr args_explicit"
  "parse_args_example [] = Inl 2"
  by (simp_all add: parse_args_example_def argv_default_def argv_explicit_def)

lemma collect_fs_empty:
  "collect_files (arg_app_dir args_default) (DEFAULT_EXCLUDES \<union> set (arg_exclude args_default)) fs_empty
     = Inr []"
  by code_simp

lemma version_fs_empty:
  "determine_version loads_example no_stat_error (arg_manifest_path args_default)
     (arg_version args_default) fs_empty = Inr ''0.0.1''"
  by (simp add: determine_version_def load_existing_version_def path_exists_def no_stat_error_def
                exists_def lookup_def args_default_def ota_manifest_def fs_empty_def)

lemma version_fs_prior:
  "determine_version loads_example no_stat_error (arg_manifest_path args_default)
     (arg_version args_default) (fs_prior (version_text ''1.x.0'')) = Inl ValueError"
  using determine_version_1x0 by (simp add: args_default_def)

theorem main_empty_witness:
  "parse_args_example argv_default = Inr args_default
   \<and> determine_version loads_example no_stat_error (arg_manifest_path args_default)
        (arg_version args_default) fs_empty = Inr ''0.0.1''
   \<and> collect_files (arg_app_dir args_default) (DEFAULT_EXCLUDES \<union> set (arg_exclude args_default)) fs_empty
       = Inr []
   \<and> main parse_args_example loads_example no_stat_error argv_default fs_empty = Inr (2, fs_empty)
   \<and> parse_args_example [] = Inl 2
   \<and> main parse_args_example loads_example no_stat_error [] fs_empty = Inl (SystemExit 2)
   \<and> determine_version loads_example no_stat_error (arg_manifest_path args_default)
        (arg_version args_default) (fs_prior (version_text ''1.x.0'')) = Inl ValueError
   \<and> main parse_args_example loads_example no_stat_error argv_default
        (fs_prior (version_text ''1.x.0'')) = Inl ValueError"
proof -
  have a: "main parse_args_example loads_example no_stat_error argv_default fs_empty
             = Inr (2, fs_empty)"
    using main_empty [of parse_args_example argv_default loads_example fs_empty]
      parse_examples(1) version_fs_empty collect_fs_empty
    by blast
  have b: "main parse_args_example loads_example no_stat_error [] fs_empty = Inl (SystemExit 2)"
    using main_empty [of parse_args_example "[]" loads_example fs_empty] parse_examples(3)
    by blast
  have c: "main parse_args_example loads_example no_stat_error argv_default
             (fs_prior (version_text ''1.x.0'')) = Inl ValueError"
    using main_empty [of parse_args_example argv_default loads_example
        "fs_prior (version_text ''1.x.0'')"]
      parse_examples(1) version_fs_prior
    by blast
  show ?thesis
    using a b c parse_examples(1,3) version_fs_empty collect_fs_empty version_fs_prior
    by (intro conjI)
qed

text \<open>
  C8 as stated fails: with an empty application directory beside a prior manifest of
  version \<^verbatim>\<open>1.x.0\<close> and no version on the command line, the collection would yield no
  file, but \<^verbatim>\<open>main\<close> resolves the version first and raises ValueError instead of
  returning the exit code of the empty build.
\<close>

lemma collect_fs_empty_prior:
  "collect_files (arg_app_dir args_default) (DEFAULT_EXCLUDES \<union> set (arg_exclude args_default))
     fs_empty_prior = Inr []"
  by code_simp

lemma version_fs_empty_prior:
  "determine_version loads_example no_stat_error (arg_manifest_path args_default)
     (arg_version args_default) fs_empty_prior = Inl ValueError"
proof -
  have "lookup fs_empty_prior ota_manifest = Some (File (version_text ''1.x.0''))"
    by (simp add: lookup_def fs_empty_prior_def fs_empty_def fs_prior_def ota_manifest_def)
  then have "load_existing_version loads_example no_stat_error ota_manifest fs_empty_prior
               = Inr (Some ''1.x.0'')"
    by (simp add: load_existing_version_def path_exists_def no_stat_error_def exists_def
                  read_bytes_def loads_example_simps strip_examples)
  then have "determine_version loads_example no_stat_error ota_manifest None fs_empty_prior
               = Inl ValueError"
    by (simp add: determine_version_loaded bump_patch_examples)
  then show ?thesis by (simp add: args_default_def)
qed

theorem main_empty_counterexample:
  "parse_args_example argv_default = Inr args_default
   \<and> collect_files (arg_app_dir args_default) (DEFAULT_EXCLUDES \<union> set (arg_exclude args_default))
        fs_empty_prior = Inr []
   \<and> main parse_args_example loads_example no_stat_error argv_default fs_empty_prior
       = Inl ValueError"
  by (simp add: parse_examples collect_fs_empty_prior version_fs_empty_prior
        main_parsed [where parse_args = parse_args_example and argv = argv_default,
          OF parse_examples(1)])

subsection \<open>The file system operations\<close>

lemma lookup_Nil [simp]: "lookup fs [] = Some Dir"
  by (simp add: lookup_def)

lemma lookup_update:
  "lookup (AList.update p v fs) q = (if q = [] then Some Dir else if q = p then Some v else lookup fs q)"
  by (simp add: lookup_def update_conv')

lemma map_of_filter_key:
  "map_of (filter (\<lambda>e. P (fst e)) fs) q = (if P q then map_of fs q else None)"
  by (induction fs) auto

lemma tree_iff: "tree fs \<longleftrightarrow> (\<forall>p. lookup fs p \<noteq> None \<longrightarrow> is_dir fs (parent p))"
proof
  assume t: "tree fs"
  show "\<forall>p. lookup fs p \<noteq> None \<longrightarrow> is_dir fs (parent p)"
  proof (intro allI impI)
    fix p assume "lookup fs p \<noteq> None"
    show "is_dir fs (parent p)"
    proof (cases "p = []")
      case True
      then show ?thesis by (simp add: parent_def is_dir_def)
    next
      case False
      then obtain n where "map_of fs p = Some n"
        using \<open>lookup fs p \<noteq> None\<close> by (auto simp: lookup_def)
      then have "(p, n) \<in> set fs" by (rule map_of_SomeD)
      then show ?thesis using t by (auto simp: tree_def list_all_iff)
    qed
  qed
next
  assume a: "\<forall>p. lookup fs p \<noteq> None \<longrightarrow> is_dir fs (parent p)"
  show "tree fs"
    unfolding tree_def list_all_iff
  proof
    fix e assume "e \<in> set fs"
    then have "map_of fs (fst e) \<noteq> None"
      by (metis domIff dom_map_of_conv_image_fst imageI)
    then have "lookup fs (fst e) \<noteq> None" by (simp add: lookup_def)
    then show "is_dir fs (parent (fst e))" using a by blast
  qed
qed

lemma tree_parent: "tree fs \<Longrightarrow> lookup fs p = Some n \<Longrightarrow> is_dir fs (parent p)"
  by (simp add: tree_iff)

lemma tree_ancestor:
  "tree fs \<Longrightarrow> lookup fs p \<noteq> None \<Longrightarrow> strict_prefix q p \<Longrightarrow> is_dir fs q"
proof (induction p rule: rev_induct)
  case Nil
  then show ?case by simp
next
  case (snoc c p)
  have d: "is_dir fs p" using snoc.prems(1,2) by (auto simp: tree_iff parent_def)
  have "prefix q p" using snoc.prems(3) by (auto simp: strict_prefix_def)
  then show ?case
  proof (cases "q = p")
    case True
    then show ?thesis using d by simp
  next
    case False
    then have "strict_prefix q p" using \<open>prefix q p\<close> by (simp add: strict_prefix_def)
    then show ?thesis using snoc.IH snoc.prems(1) d by (simp add: is_dir_def)
  qed
qed

lemma tree_prefix_dir:
  "tree fs \<Longrightarrow> is_dir fs p \<Longrightarrow> prefix q p \<Longrightarrow> is_dir fs q"
  using tree_ancestor [of fs p q] by (cases "q = p") (auto simp: is_dir_def strict_prefix_def)

lemma rmtree_Inr:
  assumes "rmtree d fs = Inr fs'"
  shows "is_dir fs d \<and> d \<noteq> [] \<and> (\<forall>q. lookup fs' q = (if prefix d q then None else lookup fs q))"
proof -
  from assms have d: "is_dir fs d" "d \<noteq> []" and fs': "fs' = filter (\<lambda>e. \<not> prefix d (fst e)) fs"
    by (auto simp: rmtree_def is_dir_def split: option.splits node.splits if_splits)
  have "lookup fs' q = (if prefix d q then None else lookup fs q)" for q
    using d(2) by (auto simp: fs' lookup_def map_of_filter_key [where P = "\<lambda>q. \<not> prefix d q"])
  then show ?thesis using d by simp
qed

lemma os_mkdir_Inr:
  assumes "os_mkdir p fs = Inr fs'"
  shows "lookup fs p = None \<and> is_dir fs (parent p) \<and> p \<noteq> []
         \<and> (\<forall>q. lookup fs' q = (if q = p then Some Dir else lookup fs q))"
proof -
  from assms have a: "lookup fs p = None" "is_dir fs (parent p)" "fs' = AList.update p Dir fs"
    by (auto simp: os_mkdir_def exists_def is_dir_def split: if_splits option.splits node.splits)
  then have "p \<noteq> []" by auto
  then show ?thesis using a by (auto simp: lookup_update)
qed

lemma os_mkdir_succeeds:
  "lookup fs p = None \<Longrightarrow> is_dir fs (parent p) \<Longrightarrow> os_mkdir p fs = Inr (AList.update p Dir fs)"
  by (simp add: os_mkdir_def exists_def is_dir_def)

lemma prefix_parent: "p \<noteq> [] \<Longrightarrow> prefix q p \<longleftrightarrow> q = p \<or> prefix q (parent p)"
  by (cases p rule: rev_cases) (auto simp: parent_def)

lemma tree_update_dir:
  assumes "tree fs" "lookup fs p = None" "is_dir fs (parent p)"
  shows "tree (AList.update p Dir fs)"
  unfolding tree_iff
proof (intro allI impI)
  fix q assume q: "lookup (AList.update p Dir fs) q \<noteq> None"
  show "is_dir (AList.update p Dir fs) (parent q)"
  proof (cases "q = p")
    case True
    then show ?thesis using assms by (auto simp: is_dir_def lookup_update)
  next
    case False
    then have "lookup fs q \<noteq> None" using q by (auto simp: lookup_update split: if_splits)
    then have "is_dir fs (parent q)" using assms(1) by (simp add: tree_iff)
    then show ?thesis using assms(2) by (auto simp: is_dir_def lookup_update)
  qed
qed


lemma made_refl: "tree fs \<Longrightarrow> is_dir fs p \<Longrightarrow> made p fs fs"
  unfolding made_def using tree_prefix_dir [of fs p] by (auto simp: is_dir_def)

lemma made_step:
  assumes "tree fs" "lookup fs p = None" "is_dir fs (parent p)"
  shows "made p fs (AList.update p Dir fs)"
proof -
  have ne: "p \<noteq> []" using assms(2) by auto
  have "lookup fs q \<noteq> None" if "prefix q p" "q \<noteq> p" for q
    using that tree_prefix_dir [OF assms(1,3), of q] ne by (auto simp: prefix_parent is_dir_def)
  then show ?thesis
    unfolding made_def using assms ne
    by (auto simp: tree_update_dir lookup_update is_dir_def)
qed

lemma made_trans_parent:
  assumes "p \<noteq> []" "made (parent p) fs fs1" "made p fs1 fs'" "lookup fs p = None"
  shows "made p fs fs'"
  using assms unfolding made_def by (auto simp: prefix_parent)

lemma mkdir_parents_made:
  "mkdir_parents p fs = Inr fs' \<Longrightarrow> tree fs \<Longrightarrow> made p fs fs'"
proof (induction p fs arbitrary: fs' rule: mkdir_parents.induct)
  case (1 p fs)
  show ?case
  proof (cases "os_mkdir p fs")
    case (Inr g)
    then have "fs' = g" using "1.prems"(1) by (simp add: mkdir_parents.simps [of p fs])
    moreover have "g = AList.update p Dir fs"
      using Inr by (auto simp: os_mkdir_def split: if_splits option.splits node.splits)
    ultimately show ?thesis
      using os_mkdir_Inr [OF Inr] "1.prems"(2) by (simp add: made_step)
  next
    case (Inl e)
    show ?thesis
    proof (cases "e = FileNotFoundError")
      case True
      from "1.prems"(1) Inl True obtain fs1 where
        ne: "parent p \<noteq> p" and r: "mkdir_parents (parent p) fs = Inr fs1"
        and m: "mkdir_exist_ok p fs1 = Inr fs'"
        by (auto simp: mkdir_parents.simps [of p fs] split: if_splits sum.splits)
      have pne: "p \<noteq> []" using ne by (auto simp: parent_def)
      have none: "lookup fs p = None"
        using Inl True by (auto simp: os_mkdir_def exists_def split: if_splits option.splits node.splits)
      have m1: "made (parent p) fs fs1"
        using "1.IH" [OF Inl True ne r "1.prems"(2)] .
      then have t1: "tree fs1" "is_dir fs1 (parent p)" by (simp_all add: made_def)
      have "\<not> prefix p (parent p)" using pne by (cases p rule: rev_cases) (auto simp: parent_def)
      then have none1: "lookup fs1 p = None" using m1 none by (simp add: made_def)
      then have "os_mkdir p fs1 = Inr (AList.update p Dir fs1)"
        using t1 by (simp add: os_mkdir_succeeds)
      then have "fs' = AList.update p Dir fs1"
        using m by (simp add: mkdir_exist_ok_def)
      then have "made p fs1 fs'" using made_step [OF t1(1) none1 t1(2)] by simp
      then show ?thesis using made_trans_parent [OF pne m1 _ none] by simp
    next
      case False
      then have "is_dir fs p" "fs' = fs"
        using "1.prems"(1) Inl by (auto simp: mkdir_parents.simps [of p fs] split: if_splits)
      then show ?thesis using "1.prems"(2) by (simp add: made_refl)
    qed
  qed
qed

lemma write_bytes_Inr:
  assumes "write_bytes p d fs = Inr fs'"
  shows "p \<noteq> [] \<and> lookup fs p \<noteq> Some Dir \<and> (lookup fs p = None \<longrightarrow> is_dir fs (parent p))
         \<and> (\<forall>q. lookup fs' q = (if q = p then Some (File d) else lookup fs q))"
proof -
  from assms have a: "lookup fs p \<noteq> Some Dir" "lookup fs p = None \<longrightarrow> is_dir fs (parent p)"
    "fs' = AList.update p (File d) fs"
    by (auto simp: write_bytes_def is_dir_def split: option.splits node.splits)
  then have "p \<noteq> []" by auto
  then show ?thesis using a by (auto simp: lookup_update)
qed

lemma tree_write:
  assumes "tree fs" "write_bytes p d fs = Inr fs'"
  shows "tree fs'"
  unfolding tree_iff
proof (intro allI impI)
  note w = write_bytes_Inr [OF assms(2)]
  fix q assume q: "lookup fs' q \<noteq> None"
  have pd: "is_dir fs (parent p)"
    using w assms(1) by (cases "lookup fs p") (auto simp: tree_iff)
  have "is_dir fs (parent q)"
  proof (cases "q = p")
    case True then show ?thesis using pd by simp
  next
    case False
    then have "lookup fs q \<noteq> None" using q w by simp
    then show ?thesis using assms(1) by (simp add: tree_iff)
  qed
  moreover have "parent q \<noteq> p" using \<open>is_dir fs (parent q)\<close> w by (auto simp: is_dir_def)
  ultimately show "is_dir fs' (parent q)" using w by (simp add: is_dir_def)
qed

lemma copy2_Inr:
  assumes "copy2 src dst fs = Inr fs'"
  shows "\<exists>data. lookup fs src = Some (File data)
           \<and> write_bytes (if is_dir fs dst then dst @ [last src] else dst) data fs = Inr fs'"
proof -
  from assms obtain data where r: "read_bytes fs src = Inr data"
    by (auto simp: copy2_def Let_def split: if_splits sum.splits)
  then have s: "lookup fs src = Some (File data)"
    by (auto simp: read_bytes_def split: option.splits node.splits)
  then have "src \<noteq> []" by auto
  then show ?thesis using assms r s by (auto simp: copy2_def Let_def split: if_splits)
qed


lemma apart: "\<not> prefix app rel \<Longrightarrow> \<not> prefix rel app \<Longrightarrow> \<not> prefix rel (app @ q)"
  by (metis prefix_same_cases prefixI)

lemma strict_prefix_butlast: "r \<noteq> [] \<Longrightarrow> strict_prefix q r \<longleftrightarrow> prefix q (butlast r)"
  by (cases r rule: rev_cases) (auto simp: strict_prefix_def)

lemma staged_cong:
  "(\<And>q. lookup g (app @ q) = lookup h (app @ q)) \<Longrightarrow> staged app fls g q = staged app fls h q"
  by (simp add: staged_def)

lemma copy_loop_staged:
  assumes "copy_loop app rel fls g = Inr g'"
    and "tree g"
    and "\<not> prefix app rel" "\<not> prefix rel app"
    and "\<forall>f\<in>set fls. strict_prefix app f"
    and "\<forall>f\<in>set done. strict_prefix app f \<and> (\<exists>d. lookup g f = Some (File d))"
    and "\<forall>q. lookup g (rel @ q) = staged app done g q"
  shows "tree g' \<and> (\<forall>p. \<not> prefix rel p \<longrightarrow> lookup g' p = lookup g p)
         \<and> (\<forall>q. lookup g' (rel @ q) = staged app (done @ fls) g q)
         \<and> (\<forall>f\<in>set fls. \<exists>d. lookup g f = Some (File d))"
  using assms
proof (induction fls arbitrary: g "done")
  case Nil
  then show ?case by simp
next
  case (Cons f rest)
  note sep = Cons.prems(3,4)
  have fpre: "strict_prefix app f" using Cons.prems(5) by simp
  define r where "r = drop (length app) f"
  have f: "f = app @ r" and rne: "r \<noteq> []"
    using fpre by (auto simp: r_def strict_prefix_def prefix_def)
  have rel_f: "relative_to f app = Inr r"
    using fpre by (simp add: relative_to_def r_def strict_prefix_def)
  have par: "parent (rel @ r) = rel @ butlast r"
    using rne by (simp add: parent_def butlast_append)
  from Cons.prems(1) rel_f obtain g1 g2 where
    mk: "mkdir_parents (rel @ butlast r) g = Inr g1"
    and cp: "copy2 f (rel @ r) g1 = Inr g2"
    and lp: "copy_loop app rel rest g2 = Inr g'"
    by (auto simp: par split: sum.splits)
  have reld: "is_dir g rel"
  proof -
    have "app \<notin> set done" using Cons.prems(6) by (auto simp: strict_prefix_def)
    then show ?thesis
      using Cons.prems(7) [rule_format, of "[]"] by (simp add: staged_def is_dir_def)
  qed
  note m = mkdir_parents_made [OF mk Cons.prems(2), unfolded made_def]
  have t1: "tree g1" using m by simp
  have out1: "lookup g1 p = lookup g p" if "\<not> prefix rel p" for p
  proof (cases "prefix p (rel @ butlast r)")
    case True
    then have "prefix p rel" using that by (metis prefix_same_cases prefixI)
    then have "is_dir g p" using tree_prefix_dir [OF Cons.prems(2) reld] by simp
    then show ?thesis using m by (simp add: is_dir_def)
  next
    case False
    then show ?thesis using m by simp
  qed
  have in1: "lookup g1 (rel @ q) =
               (if prefix q (butlast r) \<and> staged app done g q = None then Some Dir
                else staged app done g q)" for q
    using m Cons.prems(7) by simp
  have nf: "\<not> prefix rel f" unfolding f by (rule apart [OF sep])
  from copy2_Inr [OF cp] obtain data where
    src1: "lookup g1 f = Some (File data)"
    and wr: "write_bytes (if is_dir g1 (rel @ r) then (rel @ r) @ [last f] else rel @ r) data g1 = Inr g2"
    by blast
  have src: "lookup g f = Some (File data)" using src1 out1 [OF nf] by simp
  have nd: "\<not> is_dir g1 (rel @ r)"
  proof
    assume d: "is_dir g1 (rel @ r)"
    have "\<not> prefix r (butlast r)" using rne by (cases r rule: rev_cases) auto
    then have "staged app done g r = Some Dir" using d in1 [of r] by (simp add: is_dir_def)
    then obtain f' where f': "f' \<in> set done" "strict_prefix f f'"
      using src rne by (auto simp: staged_def f split: if_splits)
    then obtain d' where "lookup g f' = Some (File d')" using Cons.prems(6) by blast
    then have "is_dir g f" using tree_ancestor [OF Cons.prems(2) _ f'(2)] by simp
    then show False using src by (simp add: is_dir_def)
  qed
  then have wr': "write_bytes (rel @ r) data g1 = Inr g2" using wr by simp
  note w = write_bytes_Inr [OF wr']
  have t2: "tree g2" by (rule tree_write [OF t1 wr'])
  have out2: "lookup g2 p = lookup g p" if "\<not> prefix rel p" for p
    using w out1 [OF that] that by auto
  have app2: "lookup g2 (app @ q) = lookup g (app @ q)" for q
    by (rule out2 [OF apart [OF sep]])
  have done2: "\<forall>f'\<in>set (done @ [f]). strict_prefix app f' \<and> (\<exists>d. lookup g2 f' = Some (File d))"
  proof
    fix f' assume "f' \<in> set (done @ [f])"
    then have sp: "strict_prefix app f'" and "\<exists>d. lookup g f' = Some (File d)"
      using Cons.prems(6) src fpre by auto
    then obtain d where d: "lookup g f' = Some (File d)" by blast
    obtain q where "f' = app @ q" using sp by (auto simp: strict_prefix_def prefix_def)
    then have "lookup g2 f' = lookup g f'" using app2 by simp
    then show "strict_prefix app f' \<and> (\<exists>d. lookup g2 f' = Some (File d))" using sp d by simp
  qed
  have snap2: "\<forall>q. lookup g2 (rel @ q) = staged app (done @ [f]) g2 q"
  proof
    fix q
    show "lookup g2 (rel @ q) = staged app (done @ [f]) g2 q"
    proof (cases "q = r")
      case True
      then show ?thesis using w src app2 [of r] by (simp add: staged_def f)
    next
      case False
      then have l: "lookup g2 (rel @ q) =
                      (if prefix q (butlast r) \<and> staged app done g q = None then Some Dir
                       else staged app done g q)"
        using w in1 [of q] by simp
      have nf': "app @ q \<noteq> f" using False by (simp add: f)
      have sp: "strict_prefix (app @ q) f \<longleftrightarrow> prefix q (butlast r)"
        using strict_prefix_butlast [OF rne, of q] by (simp add: f strict_prefix_def)
      show ?thesis
      proof (cases "app @ q \<in> set done")
        case True
        then obtain d where "lookup g (app @ q) = Some (File d)" using Cons.prems(6) by blast
        then show ?thesis using True l app2 [of q] by (simp add: staged_def)
      next
        case False
        then show ?thesis using l nf' sp by (auto simp: staged_def)
      qed
    qed
  qed
  have rest: "\<forall>f\<in>set rest. strict_prefix app f" using Cons.prems(5) by simp
  note ih = Cons.IH [OF lp t2 sep rest done2 snap2]
  have a: "tree g'" using ih by simp
  have b: "\<forall>p. \<not> prefix rel p \<longrightarrow> lookup g' p = lookup g p"
    using ih out2 by simp
  have c: "\<forall>q. lookup g' (rel @ q) = staged app (done @ f # rest) g q"
  proof
    fix q
    have "lookup g' (rel @ q) = staged app ((done @ [f]) @ rest) g2 q" using ih by simp
    also have "\<dots> = staged app ((done @ [f]) @ rest) g q" by (rule staged_cong) (rule app2)
    finally show "lookup g' (rel @ q) = staged app (done @ f # rest) g q" by simp
  qed
  have d: "\<forall>f'\<in>set (f # rest). \<exists>d. lookup g f' = Some (File d)"
  proof
    fix f' assume "f' \<in> set (f # rest)"
    then consider "f' = f" | "f' \<in> set rest" by auto
    then show "\<exists>d. lookup g f' = Some (File d)"
    proof cases
      case 1 then show ?thesis using src by simp
    next
      case 2
      then obtain d where d: "lookup g2 f' = Some (File d)" using ih by blast
      obtain q where "f' = app @ q" using rest 2 by (auto simp: strict_prefix_def prefix_def)
      then show ?thesis using d app2 by simp
    qed
  qed
  show ?case using a b c d by simp
qed


lemma mkdir_parents_succeeds:
  "tree fs \<Longrightarrow> \<forall>q d. prefix q p \<longrightarrow> lookup fs q \<noteq> Some (File d) \<Longrightarrow>
     \<exists>fs'. mkdir_parents p fs = Inr fs'"
proof (induction p fs rule: mkdir_parents.induct)
  case (1 p fs)
  show ?case
  proof (cases "os_mkdir p fs")
    case (Inr g)
    then show ?thesis by (simp add: mkdir_parents.simps [of p fs])
  next
    case (Inl e)
    show ?thesis
    proof (cases "lookup fs p")
      case (Some n)
      then have "is_dir fs p" using "1.prems"(2) by (cases n) (auto simp: is_dir_def)
      moreover have "e \<noteq> FileNotFoundError"
        using Inl Some by (auto simp: os_mkdir_def exists_def)
      ultimately show ?thesis using Inl by (simp add: mkdir_parents.simps [of p fs])
    next
      case None
      then have pne: "p \<noteq> []" by auto
      then have pp: "prefix (parent p) p" by (simp add: prefix_parent)
      have e: "e = FileNotFoundError" "lookup fs (parent p) = None"
        using Inl None "1.prems"(2) pp
        by (auto simp: os_mkdir_def exists_def split: option.splits node.splits)
      have ne: "parent p \<noteq> p" using pne by (cases p rule: rev_cases) (auto simp: parent_def)
      have "\<forall>q d. prefix q (parent p) \<longrightarrow> lookup fs q \<noteq> Some (File d)"
        using "1.prems"(2) pne by (simp add: prefix_parent)
      from "1.IH" [OF Inl e(1) ne "1.prems"(1) this] obtain fs1 where
        r: "mkdir_parents (parent p) fs = Inr fs1" by blast
      note m = mkdir_parents_made [OF r "1.prems"(1), unfolded made_def]
      have "\<not> prefix p (parent p)" using pne by (cases p rule: rev_cases) (auto simp: parent_def)
      then have "lookup fs1 p = None" using m None by simp
      then have "os_mkdir p fs1 = Inr (AList.update p Dir fs1)"
        using m by (simp add: os_mkdir_succeeds)
      then show ?thesis
        using Inl e ne r by (simp add: mkdir_parents.simps [of p fs] mkdir_exist_ok_def)
    qed
  qed
qed

lemma copy_step_succeeds:
  assumes "tree g"
    and "\<not> prefix app rel" "\<not> prefix rel app"
    and "strict_prefix app f" "lookup g f = Some (File d)"
    and "\<forall>f\<in>set done. strict_prefix app f \<and> (\<exists>d. lookup g f = Some (File d))"
    and "\<forall>q. lookup g (rel @ q) = staged app done g q"
  shows "\<exists>g2. copy_loop app rel [f] g = Inr g2"
proof -
  note sep = assms(2,3)
  define r where "r = drop (length app) f"
  have f: "f = app @ r" and rne: "r \<noteq> []"
    using assms(4) by (auto simp: r_def strict_prefix_def prefix_def)
  have rel_f: "relative_to f app = Inr r"
    using assms(4) by (simp add: relative_to_def r_def strict_prefix_def)
  have par: "parent (rel @ r) = rel @ butlast r"
    using rne by (simp add: parent_def butlast_append)
  have reld: "is_dir g rel"
  proof -
    have "app \<notin> set done" using assms(6) by (auto simp: strict_prefix_def)
    then show ?thesis
      using assms(7) [rule_format, of "[]"] by (simp add: staged_def is_dir_def)
  qed
  have nf: "\<not> prefix rel f" unfolding f by (rule apart [OF sep])
  have free: "\<forall>q' d'. prefix q' (rel @ butlast r) \<longrightarrow> lookup g q' \<noteq> Some (File d')"
  proof (intro allI impI)
    fix q' d' assume p: "prefix q' (rel @ butlast r)"
    show "lookup g q' \<noteq> Some (File d')"
    proof (cases "prefix q' rel")
      case True
      then have "is_dir g q'" using tree_prefix_dir [OF assms(1) reld] by simp
      then show ?thesis by (simp add: is_dir_def)
    next
      case False
      then have "prefix rel q'" using p by (metis prefix_same_cases prefixI)
      then obtain q where q: "q' = rel @ q" by (auto simp: prefix_def)
      then have pq: "prefix q (butlast r)" using p by simp
      then have "strict_prefix (app @ q) f"
        using strict_prefix_butlast [OF rne, of q] by (simp add: f strict_prefix_def)
      then have "is_dir g (app @ q)"
        using tree_ancestor [OF assms(1), of f] assms(5) by simp
      then show ?thesis
        using assms(7) [rule_format, of q] q by (auto simp: staged_def is_dir_def)
    qed
  qed
  from mkdir_parents_succeeds [OF assms(1) free] obtain g1 where
    mk: "mkdir_parents (rel @ butlast r) g = Inr g1" by blast
  note m = mkdir_parents_made [OF mk assms(1), unfolded made_def]
  have src1: "lookup g1 f = Some (File d)" using m assms(5) by simp
  have "\<not> prefix r (butlast r)" using rne by (cases r rule: rev_cases) auto
  then have l1: "lookup g1 (rel @ r) = staged app done g r" using m assms(7) by simp
  have nd: "\<not> is_dir g1 (rel @ r)"
  proof
    assume "is_dir g1 (rel @ r)"
    then have "staged app done g r = Some Dir" using l1 by (simp add: is_dir_def)
    then obtain f' where f': "f' \<in> set done" "strict_prefix f f'"
      using assms(5) rne by (auto simp: staged_def f split: if_splits)
    then obtain d' where "lookup g f' = Some (File d')" using assms(6) by blast
    then have "is_dir g f" using tree_ancestor [OF assms(1) _ f'(2)] by simp
    then show False using assms(5) by (simp add: is_dir_def)
  qed
  have pd: "is_dir g1 (parent (rel @ r))" using m par by simp
  have "rel @ r \<noteq> f" using nf by auto
  moreover have "f \<noteq> []" using src1 by auto
  moreover have "\<exists>g2. write_bytes (rel @ r) d g1 = Inr g2"
    using nd pd by (auto simp: write_bytes_def is_dir_def split: option.splits node.splits)
  ultimately have "\<exists>g2. copy2 f (rel @ r) g1 = Inr g2"
    using nd src1 by (auto simp: copy2_def Let_def read_bytes_def)
  then show ?thesis using rel_f mk par by (auto split: sum.splits)
qed

lemma copy_loop_Cons:
  "copy_loop app rel (f # fls) g =
     (case copy_loop app rel [f] g of Inl e \<Rightarrow> Inl e | Inr g2 \<Rightarrow> copy_loop app rel fls g2)"
  by (auto split: sum.splits)

lemma copy_loop_succeeds:
  assumes "tree g"
    and "\<not> prefix app rel" "\<not> prefix rel app"
    and "\<forall>f\<in>set fls. strict_prefix app f \<and> (\<exists>d. lookup g f = Some (File d))"
    and "\<forall>f\<in>set done. strict_prefix app f \<and> (\<exists>d. lookup g f = Some (File d))"
    and "\<forall>q. lookup g (rel @ q) = staged app done g q"
  shows "\<exists>g'. copy_loop app rel fls g = Inr g'"
  using assms
proof (induction fls arbitrary: g "done")
  case Nil
  then show ?case by simp
next
  case (Cons f rest)
  note sep = Cons.prems(2,3)
  from Cons.prems(4) obtain d where fp: "strict_prefix app f" and fd: "lookup g f = Some (File d)"
    by auto
  from copy_step_succeeds [OF Cons.prems(1) sep fp fd Cons.prems(5,6)] obtain g2 where
    st: "copy_loop app rel [f] g = Inr g2" by blast
  have "\<forall>f\<in>set [f]. strict_prefix app f" using fp by simp
  note c = copy_loop_staged [OF st Cons.prems(1) sep this Cons.prems(5,6)]
  have app2: "lookup g2 (app @ q) = lookup g (app @ q)" for q
    using c apart [OF sep, of q] by simp
  have files2: "strict_prefix app f' \<and> (\<exists>d. lookup g2 f' = Some (File d))"
    if "strict_prefix app f' \<and> (\<exists>d. lookup g f' = Some (File d))" for f'
  proof -
    from that have "prefix app f'" by (simp add: strict_prefix_def)
    then obtain q where "f' = app @ q" by (auto simp: prefix_def)
    then show ?thesis using that app2 by simp
  qed
  have snap2: "\<forall>q. lookup g2 (rel @ q) = staged app (done @ [f]) g2 q"
  proof
    fix q
    have "lookup g2 (rel @ q) = staged app (done @ [f]) g q" using c by simp
    also have "\<dots> = staged app (done @ [f]) g2 q" by (rule staged_cong) (simp add: app2)
    finally show "lookup g2 (rel @ q) = staged app (done @ [f]) g2 q" .
  qed
  have "\<exists>g'. copy_loop app rel rest g2 = Inr g'"
  proof (rule Cons.IH [of g2 "done @ [f]"])
    show "tree g2" using c by simp
    show "\<forall>f\<in>set rest. strict_prefix app f \<and> (\<exists>d. lookup g2 f = Some (File d))"
      using Cons.prems(4) files2 by simp
    show "\<forall>f\<in>set (done @ [f]). strict_prefix app f \<and> (\<exists>d. lookup g2 f = Some (File d))"
      using Cons.prems(5) fp fd files2 by auto
    show "\<forall>q. lookup g2 (rel @ q) = staged app (done @ [f]) g2 q" by (rule snap2)
  qed (rule sep)+
  then show ?case using st by (simp only: copy_loop_Cons [of app rel f rest g] sum.case)
qed


lemma crf_prepare:
  assumes "tree fs" "(if exists fs rel then rmtree rel fs else Inr fs) = Inr B"
  shows "tree B \<and> (\<forall>q. lookup B q = (if prefix rel q then None else lookup fs q))
         \<and> (exists fs rel \<longrightarrow> rel \<noteq> [] \<and> is_dir fs rel)"
proof -
  have l: "\<forall>q. lookup B q = (if prefix rel q then None else lookup fs q)"
   and e: "exists fs rel \<longrightarrow> rel \<noteq> [] \<and> is_dir fs rel"
  proof -
    show "\<forall>q. lookup B q = (if prefix rel q then None else lookup fs q)"
    proof (cases "exists fs rel")
      case True
      then show ?thesis using assms(2) rmtree_Inr [of rel fs B] by simp
    next
      case False
      then have B: "B = fs" using assms(2) by simp
      have "lookup fs q = None" if "prefix rel q" for q
      proof (rule ccontr)
        assume n: "lookup fs q \<noteq> None"
        have "q \<noteq> rel" using n False by (auto simp: exists_def)
        then have "strict_prefix rel q" using that by (simp add: strict_prefix_def)
        then have "is_dir fs rel" using tree_ancestor [OF assms(1) n] by simp
        then show False using False by (simp add: exists_def is_dir_def)
      qed
      then show ?thesis using B by simp
    qed
    show "exists fs rel \<longrightarrow> rel \<noteq> [] \<and> is_dir fs rel"
      using assms(2) rmtree_Inr [of rel fs B] by auto
  qed
  have "tree B"
    unfolding tree_iff
  proof (intro allI impI)
    fix p assume "lookup B p \<noteq> None"
    then have np: "\<not> prefix rel p" and "lookup fs p \<noteq> None" using l by (auto split: if_splits)
    then have d: "is_dir fs (parent p)" using assms(1) by (simp add: tree_iff)
    have "prefix (parent p) p" by (simp add: parent_def prefixeq_butlast)
    then have "\<not> prefix rel (parent p)" using np by (meson prefix_order.trans)
    then show "is_dir B (parent p)" using d l by (simp add: is_dir_def)
  qed
  then show ?thesis using l e by simp
qed

lemma crf_staged:
  assumes "copy_release_files app fls rel fs = Inr fs1"
    and "tree fs"
    and "\<not> prefix app rel" "\<not> prefix rel app"
    and "\<forall>f\<in>set fls. strict_prefix app f"
  shows "tree fs1 \<and> rel \<noteq> []
         \<and> (\<forall>q. lookup fs1 (rel @ q) = staged app fls fs q)
         \<and> (\<forall>p. \<not> prefix rel p \<longrightarrow>
                lookup fs1 p = (if prefix p rel \<and> lookup fs p = None then Some Dir else lookup fs p))
         \<and> (\<forall>f\<in>set fls. \<exists>d. lookup fs f = Some (File d))"
proof -
  note sep = assms(3,4)
  from assms(1) obtain B A where
    b: "(if exists fs rel then rmtree rel fs else Inr fs) = Inr B"
    and a: "mkdir_parents rel B = Inr A"
    and lp: "copy_loop app rel fls A = Inr fs1"
    by (auto simp: copy_release_files_def split: sum.splits)
  note pb = crf_prepare [OF assms(2) b]
  note m = mkdir_parents_made [OF a pb [THEN conjunct1], unfolded made_def]
  have lA: "lookup A q = (if prefix rel q then (if q = rel then Some Dir else None)
                          else if prefix q rel \<and> lookup fs q = None then Some Dir else lookup fs q)" for q
    using m pb by (auto dest: prefix_order.antisym)
  have rne: "rel \<noteq> []" using sep by auto
  have appA: "lookup A (app @ q) = lookup fs (app @ q)" for q
  proof -
    have "\<not> prefix rel (app @ q)" by (rule apart [OF sep])
    moreover have "\<not> prefix (app @ q) rel" using sep(1) by (meson prefix_order.trans prefixI)
    ultimately show ?thesis using lA by simp
  qed
  have snapA: "\<forall>q. lookup A (rel @ q) = staged app [] A q"
    using lA by (simp add: staged_def)
  have "\<forall>f\<in>set []. strict_prefix app f \<and> (\<exists>d. lookup A f = Some (File d))" by simp
  note c = copy_loop_staged [OF lp m [THEN conjunct1] sep assms(5) this snapA]
  have 1: "\<forall>q. lookup fs1 (rel @ q) = staged app fls fs q"
  proof
    fix q
    have "lookup fs1 (rel @ q) = staged app fls A q" using c by simp
    also have "\<dots> = staged app fls fs q" by (rule staged_cong) (rule appA)
    finally show "lookup fs1 (rel @ q) = staged app fls fs q" .
  qed
  have 2: "\<forall>p. \<not> prefix rel p \<longrightarrow>
             lookup fs1 p = (if prefix p rel \<and> lookup fs p = None then Some Dir else lookup fs p)"
    using c lA by simp
  have 3: "\<forall>f\<in>set fls. \<exists>d. lookup fs f = Some (File d)"
  proof
    fix f assume f: "f \<in> set fls"
    then obtain d where d: "lookup A f = Some (File d)" using c by blast
    from f assms(5) have "prefix app f" by (simp add: strict_prefix_def)
    then obtain q where "f = app @ q" by (auto simp: prefix_def)
    then show "\<exists>d. lookup fs f = Some (File d)" using d appA by simp
  qed
  show ?thesis using c rne 1 2 3 by simp
qed

lemma crf_succeeds:
  assumes "tree fs"
    and "\<not> prefix app rel" "\<not> prefix rel app"
    and "\<forall>f\<in>set fls. strict_prefix app f \<and> (\<exists>d. lookup fs f = Some (File d))"
    and "\<forall>q d. prefix q rel \<longrightarrow> lookup fs q \<noteq> Some (File d)"
  shows "\<exists>fs1. copy_release_files app fls rel fs = Inr fs1"
proof -
  note sep = assms(2,3)
  have rne: "rel \<noteq> []" using sep by auto
  have "\<exists>B. (if exists fs rel then rmtree rel fs else Inr fs) = Inr B"
    using assms(5) [rule_format, of rel] rne
    by (auto simp: exists_def rmtree_def split: option.splits node.splits)
  then obtain B where b: "(if exists fs rel then rmtree rel fs else Inr fs) = Inr B" by blast
  note pb = crf_prepare [OF assms(1) b]
  have "\<forall>q d. prefix q rel \<longrightarrow> lookup B q \<noteq> Some (File d)"
    using pb assms(5) by simp
  from mkdir_parents_succeeds [OF pb [THEN conjunct1] this] obtain A where
    a: "mkdir_parents rel B = Inr A" by blast
  note m = mkdir_parents_made [OF a pb [THEN conjunct1], unfolded made_def]
  have lA: "lookup A q = (if prefix rel q then (if q = rel then Some Dir else None)
                          else if prefix q rel \<and> lookup fs q = None then Some Dir else lookup fs q)" for q
    using m pb by (auto dest: prefix_order.antisym)
  have appA: "lookup A (app @ q) = lookup fs (app @ q)" for q
  proof -
    have "\<not> prefix rel (app @ q)" by (rule apart [OF sep])
    moreover have "\<not> prefix (app @ q) rel" using sep(1) by (meson prefix_order.trans prefixI)
    ultimately show ?thesis using lA by simp
  qed
  have filesA: "\<forall>f\<in>set fls. strict_prefix app f \<and> (\<exists>d. lookup A f = Some (File d))"
  proof
    fix f assume "f \<in> set fls"
    then have s: "strict_prefix app f" and "\<exists>d. lookup fs f = Some (File d)" using assms(4) by auto
    moreover obtain q where "f = app @ q" using s by (auto simp: strict_prefix_def prefix_def)
    ultimately show "strict_prefix app f \<and> (\<exists>d. lookup A f = Some (File d))" using appA by simp
  qed
  have snapA: "\<forall>q. lookup A (rel @ q) = staged app [] A q"
    using lA by (simp add: staged_def)
  have "\<forall>f\<in>set []. strict_prefix app f \<and> (\<exists>d. lookup A f = Some (File d))" by simp
  from copy_loop_succeeds [OF m [THEN conjunct1] sep filesA this snapA] obtain fs1 where
    "copy_loop app rel fls A = Inr fs1" by blast
  then show ?thesis using a b by (simp add: copy_release_files_def)
qed

subsection \<open>Release staging\<close>

text \<open>
  C7 (as the code has it). Let the file system be a tree of plain entries, the snapshot
  directory and the application directory plain paths that are apart (neither inside
  the other), and the files to stage below the application directory. If
  \<^verbatim>\<open>copy_release_files\<close> returns, then every one of the files is in the snapshot, with
  its bytes, under its path relative to the application directory; the snapshot holds
  these files and the directories leading to them and nothing else, whatever it held
  before (a full overwrite); and staging once more from the state reached returns and
  leaves every entry of the file system as it is.
\<close>

theorem staging_idempotent:
  assumes run: "copy_release_files app fls rel fs = Inr fs1"
    and t: "tree fs"
    and sep: "\<not> prefix app rel" "\<not> prefix rel app"
    and under: "\<forall>f\<in>set fls. strict_prefix app f"
    and names: "plain app" "plain rel" "plain_entries fs"
  shows "(\<forall>f\<in>set fls. \<exists>d. lookup fs f = Some (File d)
              \<and> lookup fs1 (rel @ drop (length app) f) = Some (File d))
         \<and> (\<forall>q. lookup fs1 (rel @ q) = staged app fls fs q)
         \<and> (\<exists>fs2. copy_release_files app fls rel fs1 = Inr fs2 \<and> (\<forall>p. lookup fs2 p = lookup fs1 p))"
proof -
  note r1 = crf_staged [OF run t sep under]
  have t1: "tree fs1" using r1 by simp
  have snap: "\<forall>q. lookup fs1 (rel @ q) = staged app fls fs q" using r1 by simp
  have out: "lookup fs1 p = (if prefix p rel \<and> lookup fs p = None then Some Dir else lookup fs p)"
    if "\<not> prefix rel p" for p using r1 that by simp
  have app1: "lookup fs1 (app @ q) = lookup fs (app @ q)" for q
  proof -
    have "\<not> prefix rel (app @ q)" by (rule apart [OF sep])
    moreover have "\<not> prefix (app @ q) rel" using sep(1) by (meson prefix_order.trans prefixI)
    ultimately show ?thesis using out by simp
  qed
  have a: "\<forall>f\<in>set fls. \<exists>d. lookup fs f = Some (File d)
              \<and> lookup fs1 (rel @ drop (length app) f) = Some (File d)"
  proof
    fix f assume f: "f \<in> set fls"
    then obtain d where d: "lookup fs f = Some (File d)" using r1 by blast
    from f under have "prefix app f" by (simp add: strict_prefix_def)
    then have "app @ drop (length app) f = f" by (auto simp: prefix_def)
    then have "staged app fls fs (drop (length app) f) = Some (File d)"
      using f d by (simp add: staged_def)
    then show "\<exists>d. lookup fs f = Some (File d)
                 \<and> lookup fs1 (rel @ drop (length app) f) = Some (File d)"
      using d snap by simp
  qed
  have files1: "\<forall>f\<in>set fls. strict_prefix app f \<and> (\<exists>d. lookup fs1 f = Some (File d))"
  proof
    fix f assume f: "f \<in> set fls"
    then obtain d where d: "lookup fs f = Some (File d)" using r1 by blast
    from f under have s: "strict_prefix app f" by simp
    then obtain q where "f = app @ q" by (auto simp: strict_prefix_def prefix_def)
    then show "strict_prefix app f \<and> (\<exists>d. lookup fs1 f = Some (File d))" using s d app1 by simp
  qed
  have "app \<notin> set fls" using under by (auto simp: strict_prefix_def)
  then have reld: "is_dir fs1 rel" using snap [rule_format, of "[]"] by (simp add: staged_def is_dir_def)
  have pre1: "is_dir fs1 q" if "prefix q rel" for q
    using tree_prefix_dir [OF t1 reld that] .
  then have free: "\<forall>q d. prefix q rel \<longrightarrow> lookup fs1 q \<noteq> Some (File d)"
    by (auto simp: is_dir_def)
  from crf_succeeds [OF t1 sep files1 free] obtain fs2 where
    run2: "copy_release_files app fls rel fs1 = Inr fs2" by blast
  note r2 = crf_staged [OF run2 t1 sep under]
  have "lookup fs2 p = lookup fs1 p" for p
  proof (cases "prefix rel p")
    case True
    then obtain q where p: "p = rel @ q" by (auto simp: prefix_def)
    have "lookup fs2 (rel @ q) = staged app fls fs1 q" using r2 by simp
    also have "\<dots> = staged app fls fs q" by (rule staged_cong) (rule app1)
    also have "\<dots> = lookup fs1 (rel @ q)" using snap by simp
    finally show ?thesis using p by simp
  next
    case False
    then have "lookup fs2 p = (if prefix p rel \<and> lookup fs1 p = None then Some Dir else lookup fs1 p)"
      using r2 by simp
    then show ?thesis using pre1 [of p] by (auto simp: is_dir_def)
  qed
  then show ?thesis using a snap run2 by blast
qed

lemma stage_fs_stage:
  "copy_release_files [''app''] [[''app'', ''lib'', ''x.py''], [''app'', ''main.py'']]
     [''releases'', ''0.0.2''] fs_stage = Inr fs_staged"
  by code_simp

lemma tree_fs_stage: "tree fs_stage"
  by code_simp

lemma plain_fs_stage: "plain_entries fs_stage"
  by code_simp

lemma plain_examples:
  "plain [''app'']" "plain [''releases'']" "plain [''releases'', ''0.0.2'']" "plain ota_manifest"
  by code_simp+

theorem staging_idempotent_witness:
  "copy_release_files [''app''] [[''app'', ''lib'', ''x.py''], [''app'', ''main.py'']]
     [''releases'', ''0.0.2''] fs_stage = Inr fs_staged
   \<and> tree fs_stage
   \<and> \<not> prefix [''app''] [''releases'', ''0.0.2''] \<and> \<not> prefix [''releases'', ''0.0.2''] [''app'']
   \<and> strict_prefix [''app''] [''app'', ''lib'', ''x.py'']
   \<and> strict_prefix [''app''] [''app'', ''main.py'']
   \<and> plain [''app''] \<and> plain [''releases'', ''0.0.2''] \<and> plain_entries fs_stage
   \<and> lookup fs_staged [''releases'', ''0.0.2'', ''lib'', ''x.py''] = Some (File ''x=1'')
   \<and> lookup fs_staged [''releases'', ''0.0.2'', ''old.py''] = None
   \<and> (\<exists>fs2. copy_release_files [''app''] [[''app'', ''lib'', ''x.py''], [''app'', ''main.py'']]
               [''releases'', ''0.0.2''] fs_staged = Inr fs2
             \<and> (\<forall>p. lookup fs2 p = lookup fs_staged p))"
proof -
  have sep: "\<not> prefix [''app''] [''releases'', ''0.0.2'']" "\<not> prefix [''releases'', ''0.0.2''] [''app'']"
    by simp_all
  have under: "\<forall>f\<in>set [[''app'', ''lib'', ''x.py''], [''app'', ''main.py'']]. strict_prefix [''app''] f"
    by (simp add: strict_prefix_def)
  have l: "lookup fs_staged [''releases'', ''0.0.2'', ''lib'', ''x.py''] = Some (File ''x=1'')"
          "lookup fs_staged [''releases'', ''0.0.2'', ''old.py''] = None"
    by (simp_all add: lookup_def fs_staged_def)
  have each: "strict_prefix [''app''] [''app'', ''lib'', ''x.py'']"
             "strict_prefix [''app''] [''app'', ''main.py'']"
    by (simp_all add: strict_prefix_def)
  show ?thesis
    using staging_idempotent [OF stage_fs_stage tree_fs_stage sep under plain_examples(1,3)
        plain_fs_stage]
      stage_fs_stage tree_fs_stage sep each l plain_examples(1,3) plain_fs_stage
    by blast
qed

text \<open>
  C7 as stated fails: when the snapshot directory is the application directory, the
  staging step deletes the application directory with the files to stage in it and
  then raises where it would copy the first of them.
\<close>

theorem staging_counterexample:
  "lookup fs_app [''app'', ''main.py''] = Some (File ''print(1)'')
   \<and> rmtree [''app''] fs_app = Inr []
   \<and> copy_release_files [''app''] [[''app'', ''main.py'']] [''app''] fs_app = Inl FileNotFoundError"
  by code_simp

subsection \<open>The whole build\<close>


































end
